theory Spec2Isabelle
  imports Complex_Main "HOL-Library.Word"
begin

unbundle bit_operations_syntax

section \<open>ulc-codec encoder core: a shallow embedding\<close>

text \<open>
  The development follows the C sources function by function and keeps their names.
  Conventions used throughout:
  \<^item> C \<open>int\<close> and \<open>size_t\<close> values that count bands, bits or samples are \<open>nat\<close> or
    \<open>int\<close>; where the source relies on a fixed width (the 16-bit pattern word, the
    64-bit sliding sums) the width is written out.
  \<^item> finite C \<open>float\<close> values are \<open>real\<close>: an operation whose result stays in range is
    exact, \<open>logf\<close>, \<open>expf\<close> and \<open>sqrtf\<close> are \<open>ln\<close>, \<open>exp\<close> and \<open>sqrt\<close>; rounding error
    is outside the model. The narrowing of \<open>lrintf\<close>'s \<open>long\<close> to \<open>int\<close> is written out
    in the quantizer, and the psychoacoustics function, which can overflow the float
    range, has a float type with the infinities and NaN.
  \<^item> a read or write the C standard leaves undefined is an error value of the model.
\<close>

section \<open>ulcHelper.h: the sub-block decimation pattern\<close>

text \<open>
  \<open>ULC_SubBlockDecimationPattern\<close>: each sub-block is coded in 4 bits of the pattern
  word, from the least significant nibble up; bits 0..2 are the sub-block shift
  (\<open>BlockSize >> Shift\<close>), bit 3 is the transient flag. The table is indexed by
  \<open>WindowCtrl >> 4\<close>; an index outside the 16 entries is an out-of-bounds read.
\<close>

type_synonym ULC_SubBlockDecimationPattern_t = "16 word"

definition Pattern :: "ULC_SubBlockDecimationPattern_t list" where
  "Pattern =
    [0x0000 OR 0x0000, 0x0000 OR 0x0008, 0x0011 OR 0x0008, 0x0011 OR 0x0080,
     0x0122 OR 0x0008, 0x0122 OR 0x0080, 0x0221 OR 0x0080, 0x0221 OR 0x0800,
     0x1233 OR 0x0008, 0x1233 OR 0x0080, 0x1332 OR 0x0080, 0x1332 OR 0x0800,
     0x2331 OR 0x0080, 0x2331 OR 0x0800, 0x3321 OR 0x0800, 0x3321 OR 0x8000]"

definition ULC_SubBlockDecimationPattern :: "int \<Rightarrow> ULC_SubBlockDecimationPattern_t option" where
  "ULC_SubBlockDecimationPattern WindowCtrl =
     (let i = drop_bit 4 WindowCtrl
      in if 0 \<le> i \<and> i < int (length Pattern) then Some (Pattern ! nat i) else None)"

text \<open>
  The walk over a pattern word is the loop every user of the table runs
  (\<open>Block_Transform_CalculatePsychoacoustics\<close>):
  \<^verbatim>\<open>do { int SubBlockSize = BlockSize >> (DecimationPattern&0x7); ...
       MaskingNp += SubBlockSize; } while(DecimationPattern >>= 4);\<close>
  It yields, for each coded nibble in order, the offset of the sub-block in the block,
  its size and its transient flag.
\<close>

lemma drop_bit_4_less: "drop_bit 4 p \<noteq> 0 \<Longrightarrow> unat (drop_bit 4 p) < unat (p :: 16 word)"
proof -
  assume nz: "drop_bit 4 p \<noteq> 0"
  have e: "unat (drop_bit 4 p) = unat p div 16"
    by (simp add: drop_bit_eq_div unat_div)
  from nz have "unat (drop_bit 4 p) \<noteq> 0"
    by (simp only: unat_eq_0 not_False_eq_True)
  with e show ?thesis by simp
qed

record SubBlock =
  sb_Offs :: nat
  sb_Size :: nat
  sb_Transient :: bool

function SubBlockWalk :: "nat \<Rightarrow> nat \<Rightarrow> ULC_SubBlockDecimationPattern_t \<Rightarrow> SubBlock list" where
  "SubBlockWalk BlockSize offs p =
     (let sz = drop_bit (unat (p AND 0x7)) BlockSize
      in \<lparr>sb_Offs = offs, sb_Size = sz, sb_Transient = bit p 3\<rparr> #
         (if drop_bit 4 p \<noteq> 0 then SubBlockWalk BlockSize (offs + sz) (drop_bit 4 p) else []))"
  by pat_completeness auto
termination
  by (relation "measure (\<lambda>(B, offs, p). unat p)") (auto simp: drop_bit_4_less)

declare SubBlockWalk.simps [simp del]

definition TransientSubBlocks :: "nat \<Rightarrow> ULC_SubBlockDecimationPattern_t \<Rightarrow> nat list" where
  "TransientSubBlocks BlockSize p =
     (let w = SubBlockWalk BlockSize 0 p in filter (\<lambda>i. sb_Transient (w ! i)) [0..<length w])"

text \<open>The samples a list of sub-blocks covers, in order.\<close>

definition Covered :: "SubBlock list \<Rightarrow> nat list" where
  "Covered w = concat (map (\<lambda>b. [sb_Offs b..<sb_Offs b + sb_Size b]) w)"

fun popcount :: "nat \<Rightarrow> nat" where
  "popcount n = (if n = 0 then 0 else n mod 2 + popcount (n div 2))"

declare popcount.simps [simp del]

subsection \<open>Facts about the table\<close>

lemma nat_less_16_cases:
  "d < (16::nat) \<Longrightarrow> d \<in> {0, 1, 2, 3, 4, 5, 6, 7, 8, 9, 10, 11, 12, 13, 14, 15}"
  by (simp, presburger)

lemma Pattern_length: "length Pattern = 16"
  by (simp add: Pattern_def)

lemma Pattern_lookup:
  assumes "0 \<le> WindowCtrl" "WindowCtrl < 256"
  shows "ULC_SubBlockDecimationPattern WindowCtrl = Some (Pattern ! nat (drop_bit 4 WindowCtrl))"
    and "nat (drop_bit 4 WindowCtrl) < 16"
proof -
  have d: "drop_bit 4 WindowCtrl = WindowCtrl div 16"
    by (simp add: drop_bit_eq_div)
  from assms have "0 \<le> WindowCtrl div 16" "WindowCtrl div 16 < 16" by simp_all
  with d show "ULC_SubBlockDecimationPattern WindowCtrl = Some (Pattern ! nat (drop_bit 4 WindowCtrl))"
    by (simp add: ULC_SubBlockDecimationPattern_def Pattern_length)
  from \<open>WindowCtrl div 16 < 16\<close> d show "nat (drop_bit 4 WindowCtrl) < 16" by simp
qed

lemma Pattern_transient:
  assumes "0 < d" "d < 16"
  shows "TransientSubBlocks N (Pattern ! d) = [popcount d - 1]"
proof -
  from assms nat_less_16_cases [of d]
  have "d \<in> {1, 2, 3, 4, 5, 6, 7, 8, 9, 10, 11, 12, 13, 14, 15}" by simp
  then show ?thesis
    by (elim insertE emptyE;
        simp add: TransientSubBlocks_def Pattern_def SubBlockWalk.simps popcount.simps Let_def)
qed

lemma Pattern_sizes:
  assumes "d < 16"
  shows "map sb_Size (SubBlockWalk N 0 (Pattern ! d)) \<in>
     {[N], [N div 2, N div 2], [N div 4, N div 4, N div 2], [N div 2, N div 4, N div 4],
      [N div 8, N div 8, N div 4, N div 2], [N div 4, N div 8, N div 8, N div 2],
      [N div 2, N div 8, N div 8, N div 4], [N div 2, N div 4, N div 8, N div 8]}"
  using nat_less_16_cases [OF assms]
  by (elim insertE emptyE; simp add: Pattern_def SubBlockWalk.simps Let_def drop_bit_eq_div)

text \<open>The walk lays the sub-blocks end to end, whatever the pattern word.\<close>

lemma Covered_walk:
  "Covered (SubBlockWalk N offs p) =
     [offs..<offs + sum_list (map sb_Size (SubBlockWalk N offs p))]"
proof (induction N offs p rule: SubBlockWalk.induct)
  case (1 N offs p)
  let ?sz = "drop_bit (unat (p AND 0x7)) N"
  show ?case
  proof (cases "drop_bit 4 p \<noteq> 0")
    case True
    have "Covered (SubBlockWalk N offs p) =
        [offs..<offs + ?sz] @ Covered (SubBlockWalk N (offs + ?sz) (drop_bit 4 p))"
      using True by (subst SubBlockWalk.simps) (simp add: Covered_def Let_def)
    also have "\<dots> = [offs..<offs + ?sz] @
        [offs + ?sz..<offs + ?sz + sum_list (map sb_Size (SubBlockWalk N (offs + ?sz) (drop_bit 4 p)))]"
      using "1.IH" [OF refl True] by simp
    also have "\<dots> = [offs..<offs + ?sz + sum_list (map sb_Size (SubBlockWalk N (offs + ?sz) (drop_bit 4 p)))]"
      using upt_add_eq_append [of offs "offs + ?sz"
          "sum_list (map sb_Size (SubBlockWalk N (offs + ?sz) (drop_bit 4 p)))"]
      by simp
    also have "\<dots> = [offs..<offs + sum_list (map sb_Size (SubBlockWalk N offs p))]"
      using True by (subst (2) SubBlockWalk.simps) (simp add: Let_def add.assoc)
    finally show ?thesis .
  next
    case False
    then show ?thesis
      by (subst (1 2) SubBlockWalk.simps) (simp add: Covered_def Let_def)
  qed
qed

lemma pow2_div_cases:
  assumes "3 \<le> k" "s \<in> {(2::nat) ^ k, 2 ^ k div 2, 2 ^ k div 4, 2 ^ k div 8}"
  shows "(\<exists>j. s = 2 ^ j) \<and> 2 ^ k div 8 \<le> s \<and> s \<le> 2 ^ k"
proof -
  from assms(1) obtain j where k: "k = j + 3"
    by (metis add.commute le_Suc_ex)
  have e: "(2::nat) ^ k = 8 * 2 ^ j" by (simp add: k power_add)
  have d: "(2::nat) ^ k div 2 = 2 ^ (j + 2)" "(2::nat) ^ k div 4 = 2 ^ (j + 1)"
      "(2::nat) ^ k div 8 = 2 ^ j"
    by (simp_all add: e)
  from assms(2) d have "s = 2 ^ k \<or> s = 2 ^ (j + 2) \<or> s = 2 ^ (j + 1) \<or> s = 2 ^ j"
    by auto
  then have "\<exists>i. s = 2 ^ i \<and> j \<le> i \<and> i \<le> k"
  proof (elim disjE)
    assume "s = 2 ^ k" then show ?thesis using k by (intro exI [of _ k]) simp
  next
    assume "s = 2 ^ (j + 2)" then show ?thesis using k by (intro exI [of _ "j + 2"]) simp
  next
    assume "s = 2 ^ (j + 1)" then show ?thesis using k by (intro exI [of _ "j + 1"]) simp
  next
    assume "s = 2 ^ j" then show ?thesis using k by (intro exI [of _ j]) simp
  qed
  then obtain i where i: "s = 2 ^ i" "j \<le> i" "i \<le> k" by blast
  have "(2::nat) ^ j \<le> 2 ^ i" "(2::nat) ^ i \<le> 2 ^ k"
    using i by (simp_all add: power_increasing)
  with i(1) d(3) show ?thesis by auto
qed

subsection \<open>Claims C7 and C8\<close>

text \<open>
  C7, as stated: for every window control word whose low nibble is non-zero, the index of
  the sub-block marked transient equals \<open>popcount(low_nibble) - 1\<close>. In the code the
  low nibble of \<open>WindowCtrl\<close> (bits 0..3) holds the overlap scale and the decimation
  flag (\<open>OverlapScale + 0x8*(Decimation != 1) + 0x10*Decimation\<close>), and the table is
  indexed by bits 4..7. At \<open>WindowCtrl = 0x13\<close> (no decimation, overlap scale 3) the low
  nibble is 3, so the claim gives index 1, while the pattern \<open>0x0008\<close> has its only
  sub-block, index 0, marked transient.
\<close>

theorem C7_low_nibble_counterexample:
  "(0x13 :: int) AND 0xF \<noteq> 0 \<and>
   popcount (nat ((0x13 :: int) AND 0xF)) - 1 = 1 \<and>
   map_option (TransientSubBlocks 2048) (ULC_SubBlockDecimationPattern 0x13) = Some [0]"
  by (simp add: ULC_SubBlockDecimationPattern_def Pattern_def TransientSubBlocks_def
      SubBlockWalk.simps popcount.simps Let_def)

text \<open>
  C7, amended: for every window control word whose decimation nibble (bits 4..7, the table
  index \<open>WindowCtrl >> 4\<close>) is non-zero, exactly one coded sub-block of the pattern is
  marked transient, and its index is the population count of the decimation nibble
  minus one. This holds for every block size.
\<close>

theorem C7_transient_index_popcount:
  assumes "16 \<le> WindowCtrl" "WindowCtrl < 256"
  shows "map_option (TransientSubBlocks BlockSize) (ULC_SubBlockDecimationPattern WindowCtrl) =
           Some [popcount (nat (drop_bit 4 WindowCtrl)) - 1]"
proof -
  from assms have "0 \<le> WindowCtrl" by simp
  note look = Pattern_lookup [OF this assms(2)]
  from assms(1) have "0 < nat (drop_bit 4 WindowCtrl)"
    by (simp add: drop_bit_eq_div)
  from Pattern_transient [OF this look(2)] look(1) show ?thesis by simp
qed

theorem C7_transient_index_popcount_witness:
  "(16 :: int) \<le> 0xD5 \<and> (0xD5 :: int) < 256 \<and>
   map_option (TransientSubBlocks 2048) (ULC_SubBlockDecimationPattern 0xD5) = Some [2]"
proof -
  have "popcount (nat (drop_bit 4 (0xD5 :: int))) - 1 = 2"
    by (simp add: drop_bit_eq_div popcount.simps)
  with C7_transient_index_popcount [of "0xD5" 2048] show ?thesis
    by simp
qed

text \<open>
  C8: for every window control word in range (so in particular for every one whose
  decimation nibble is non-zero) and every block size \<open>N = 2 ^ k\<close> with \<open>k \<ge> 3\<close>, the
  sub-block sizes \<open>N >> shift\<close> of the pattern are powers of two between \<open>N/8\<close> and
  \<open>N\<close>, they sum to \<open>N\<close>, and laid end to end as the walk does they cover exactly the
  samples \<open>0..N-1\<close>, each once.
\<close>

theorem C8_subblock_sizes_partition:
  assumes "0 \<le> WindowCtrl" "WindowCtrl < 256" "3 \<le> k"
  shows "\<exists>p. ULC_SubBlockDecimationPattern WindowCtrl = Some p \<and>
           (\<forall>b \<in> set (SubBlockWalk (2 ^ k) 0 p).
               (\<exists>j. sb_Size b = 2 ^ j) \<and>
               2 ^ k div 8 \<le> sb_Size b \<and> sb_Size b \<le> 2 ^ k) \<and>
           sum_list (map sb_Size (SubBlockWalk (2 ^ k) 0 p)) = 2 ^ k \<and>
           Covered (SubBlockWalk (2 ^ k) 0 p) = [0..<2 ^ k]"
proof -
  let ?N = "(2::nat) ^ k"
  let ?p = "Pattern ! nat (drop_bit 4 WindowCtrl)"
  let ?sizes = "map sb_Size (SubBlockWalk ?N 0 ?p)"
  note look = Pattern_lookup [OF assms(1,2)]
  from assms(3) obtain j where k: "k = j + 3"
    by (metis add.commute le_Suc_ex)
  have N: "?N = 8 * 2 ^ j" by (simp add: k power_add)
  have div: "?N div 2 = 4 * 2 ^ j" "?N div 4 = 2 * 2 ^ j" "?N div 8 = 2 ^ j"
    by (simp_all add: N)
  note sizes = Pattern_sizes [OF look(2), of ?N]
  have total: "sum_list ?sizes = ?N"
    using sizes by (elim insertE emptyE) (simp_all add: div, simp_all add: N)
  have each: "s \<in> {?N, ?N div 2, ?N div 4, ?N div 8}" if "s \<in> set ?sizes" for s
    using sizes that by (elim insertE emptyE) auto
  have bounds: "(\<exists>j. sb_Size b = 2 ^ j) \<and> ?N div 8 \<le> sb_Size b \<and> sb_Size b \<le> ?N"
    if "b \<in> set (SubBlockWalk ?N 0 ?p)" for b
  proof -
    from that have "sb_Size b \<in> set ?sizes" by simp
    from pow2_div_cases [OF assms(3) each [OF this]] show ?thesis .
  qed
  have cover: "Covered (SubBlockWalk ?N 0 ?p) = [0..<?N]"
    using Covered_walk [of ?N 0 ?p] total by simp
  from look(1) bounds total cover show ?thesis by blast
qed

theorem C8_subblock_sizes_partition_witness:
  "(0 :: int) \<le> 0xD5 \<and> (0xD5 :: int) < 256 \<and> (3 :: nat) \<le> 8 \<and>
   (\<exists>p. ULC_SubBlockDecimationPattern 0xD5 = Some p \<and>
        map sb_Size (SubBlockWalk 256 0 p) = [128, 32, 32, 64] \<and>
        sum_list (map sb_Size (SubBlockWalk 256 0 p)) = 256 \<and>
        Covered (SubBlockWalk 256 0 p) = [0..<256])"
proof -
  have val: "ULC_SubBlockDecimationPattern 0xD5 = Some 0x2B31"
    by (simp add: ULC_SubBlockDecimationPattern_def Pattern_def)
  have sizes: "map sb_Size (SubBlockWalk 256 0 0x2B31) = [128, 32, 32, 64]"
    by (simp add: SubBlockWalk.simps Let_def drop_bit_eq_div)
  from C8_subblock_sizes_partition [of "0xD5" 8] val sizes show ?thesis
    by simp
qed

section \<open>ulcHelper.h: companded quantisation\<close>

text \<open>
  \<open>lrintf\<close> rounds to the nearest integer in the current rounding mode; the encoder never
  changes the mode, so ties go to the even integer.
\<close>

definition lrintf :: "real \<Rightarrow> int" where
  "lrintf x =
     (let f = \<lfloor>x\<rfloor>; r = x - of_int f
      in if r < 1/2 then f else if 1/2 < r then f + 1 else if even f then f else f + 1)"

text \<open>
  \<open>lrintf\<close> returns a \<open>long\<close> and the cast \<open>(int)\<close> narrows it. The narrowing of a value
  that does not fit is implementation-defined; gcc and clang keep the low 32 bits as a
  two's complement number, and so does the model. For a rounded value outside \<open>long\<close>
  the result of \<open>lrintf\<close> is unspecified; the model narrows the rounded value all the
  same, and the statements that depend on the result say that it fits an \<open>int\<close>.
\<close>

definition int_of_long :: "int \<Rightarrow> int" where
  "int_of_long x = sint (word_of_int x :: 32 word)"

text \<open>\<^verbatim>\<open>return (v >= 0.5f) ? (int)lrintf(sqrtf(v - 0.25f)) : 0;\<close>\<close>

definition ULC_CompandedQuantizeUnsigned :: "real \<Rightarrow> int" where
  "ULC_CompandedQuantizeUnsigned v =
     (if v \<ge> 0.5 then int_of_long (lrintf (sqrt (v - 0.25))) else 0)"

text \<open>\<^verbatim>\<open>int vq = ULC_CompandedQuantizeUnsigned(v); return (vq < Limit) ? vq : Limit;\<close>\<close>

definition ULC_CompandedQuantizeCoefficientUnsigned :: "real \<Rightarrow> int \<Rightarrow> int" where
  "ULC_CompandedQuantizeCoefficientUnsigned v Limit =
     (let vq = ULC_CompandedQuantizeUnsigned v in if vq < Limit then vq else Limit)"

lemma sqrt_quarter: "sqrt (1/4) = 1/2"
  by (rule real_sqrt_unique) (simp_all add: power2_eq_square)





lemma int_of_long_0: "int_of_long 0 = 0"
  by (simp add: int_of_long_def)





text \<open>
  At \<open>v = 2^62\<close> the rounded square root is \<open>2^31\<close>, which the narrowing turns into
  \<open>-2^31\<close>. (In single precision \<open>v - 0.25f\<close> is \<open>2^62\<close> again and its square root is
  exactly \<open>2^31\<close>.)
\<close>

lemma ULC_CompandedQuantizeUnsigned_wraps:
  "ULC_CompandedQuantizeUnsigned (2 ^ 62) = - (2 ^ 31)"
proof -
  define x :: real where "x = sqrt (2 ^ 62 - 1/4)"
  have x2: "x\<^sup>2 = 2 ^ 62 - 1/4" by (simp add: x_def)
  have x0: "0 \<le> x" by (simp add: x_def)
  have "(2 ^ 31 - 1/2 :: real)\<^sup>2 = 2 ^ 62 - 2 ^ 31 + 1/4"
    by (simp add: power2_eq_square algebra_simps)
  then have "(2 ^ 31 - 1/2 :: real)\<^sup>2 < x\<^sup>2" unfolding x2 by simp
  then have lo: "2 ^ 31 - 1/2 < x"
    by (rule power2_less_imp_less) (rule x0)
  have "x\<^sup>2 < (2 ^ 31 :: real)\<^sup>2" unfolding x2 by simp
  then have hi: "x < 2 ^ 31"
    by (rule power2_less_imp_less) simp
  have fl: "\<lfloor>x\<rfloor> = 2 ^ 31 - 1"
    by (rule floor_unique) (use lo hi in simp_all)
  have "lrintf x = 2 ^ 31"
    using lo unfolding lrintf_def Let_def fl by simp
  moreover have "int_of_long (2 ^ 31) = - (2 ^ 31)"
    by (simp add: int_of_long_def)
  ultimately show ?thesis
    by (simp add: ULC_CompandedQuantizeUnsigned_def x_def)
qed

subsection \<open>Claim C9\<close>

text \<open>
  C9 says that \<open>ULC_CompandedQuantizeUnsigned\<close> returns 0 if and only if \<open>v < 0.5\<close>, so
  that 0.5 is the smallest input with a non-zero output; the comment in the function says
  the same (``the smallest coefficient that returns xq>0 as 0.5''), and the guard
  \<open>v >= 0.5f\<close> is written for it. At \<open>v = 0.5\<close> every intermediate value is exact in
  single precision: \<open>v - 0.25f = 0.25\<close>, \<open>sqrtf(0.25) = 0.5\<close>, and \<open>lrintf(0.5)\<close> is the
  tie between 0 and 1, which goes to the even integer. The function returns 0.
\<close>

theorem C9_quantize_half_is_zero:
  "(1/2 :: real) \<ge> 0.5 \<and> ULC_CompandedQuantizeUnsigned (1/2) = 0"
  by (simp add: ULC_CompandedQuantizeUnsigned_def lrintf_def sqrt_quarter Let_def int_of_long_0)

section \<open>ulcEncoder_NoiseFill.h: HF extension parameters\<close>

text \<open>
  \<open>Data\<close> is the buffer of \<open>{Weight, Weight*Value}\<close> pairs, as a function from the index
  to the value stored there; the caller passes a buffer that holds every index read.
  \<open>Band\<close> and \<open>N\<close> are non-negative C ints.
\<close>

record LeastSquares_Sums =
  ls_SumX  :: real
  ls_SumX2 :: real
  ls_SumXY :: real
  ls_SumY  :: real
  ls_SumW  :: real

text \<open>One pass of the loop \<^verbatim>\<open>for(n=0;n<N;n++)\<close> of the least-squares solver.\<close>

definition LeastSquares_Accumulate ::
    "(nat \<Rightarrow> real) \<Rightarrow> nat \<Rightarrow> LeastSquares_Sums \<Rightarrow> LeastSquares_Sums" where
  "LeastSquares_Accumulate Data n s =
     (let x  = real n * 2;
          w  = Data (n*2+0);
          wy = Data (n*2+1)
      in \<lparr>ls_SumX  = ls_SumX s  + w*x,
          ls_SumX2 = ls_SumX2 s + w*x*x,
          ls_SumXY = ls_SumXY s + x*wy,
          ls_SumY  = ls_SumY s  + wy,
          ls_SumW  = ls_SumW s  + w\<rparr>)"

text \<open>The solver returns 0 (here \<open>None\<close>) when the determinant vanishes, else 1 and the fit.\<close>

definition Block_Encode_EncodePass_GetHFExtParams_LeastSquares ::
    "(nat \<Rightarrow> real) \<Rightarrow> nat \<Rightarrow> (real \<times> real) option" where
  "Block_Encode_EncodePass_GetHFExtParams_LeastSquares Data N =
     (let s = fold (LeastSquares_Accumulate Data) [0..<N]
                \<lparr>ls_SumX = 0, ls_SumX2 = 0, ls_SumXY = 0, ls_SumY = 0, ls_SumW = 0\<rparr>;
          Det = ls_SumW s * ls_SumX2 s - (ls_SumX s)\<^sup>2
      in if Det = 0 then None
         else Some ((ls_SumX2 s * ls_SumY s  - ls_SumX s * ls_SumXY s) / Det,
                    (ls_SumW s  * ls_SumXY s - ls_SumX s * ls_SumY s ) / Det))"

text \<open>The result is the pair \<open>(*_NoiseQ, *_NoiseDecay)\<close>.\<close>

definition Block_Encode_EncodePass_GetHFExtParams ::
    "(nat \<Rightarrow> real) \<Rightarrow> nat \<Rightarrow> nat \<Rightarrow> real \<Rightarrow> int \<times> int" where
  "Block_Encode_EncodePass_GetHFExtParams Data Band N q =
     (let Data' = (\<lambda>i. Data (Band div 2 * 2 + i));
          N' = (N + (Band mod 2) + 1) div 2
      in case Block_Encode_EncodePass_GetHFExtParams_LeastSquares Data' N' of
           None \<Rightarrow> (0, 0)
         | Some (a, b) \<Rightarrow>
             (let Amplitude = exp a;
                  Decay = exp b;
                  Decay = (if Decay > 1 then 1 else Decay);
                  NoiseQ = ULC_CompandedQuantizeCoefficientUnsigned (Amplitude*q*4) (1 + 0xF);
                  NoiseDecay = ULC_CompandedQuantizeUnsigned ((Decay - 1) * - (2 ^ 19));
                  NoiseDecay = (if NoiseDecay > 0xFF then 0xFF else NoiseDecay)
              in (NoiseQ, NoiseDecay)))"

text \<open>
  An input for the examples: two pairs of weight 1 and log-value 0, a flat spectrum at
  amplitude 1.
\<close>

definition Example_HFExt_Data :: "nat \<Rightarrow> real" where
  "Example_HFExt_Data i = (if i = 0 \<or> i = 2 then 1 else 0)"

lemma Example_HFExt_LeastSquares:
  "Block_Encode_EncodePass_GetHFExtParams_LeastSquares
     (\<lambda>i. Example_HFExt_Data (0 div 2 * 2 + i)) 2 = Some (0, 0)"
  by (simp add: Block_Encode_EncodePass_GetHFExtParams_LeastSquares_def LeastSquares_Accumulate_def
      Example_HFExt_Data_def Let_def upt_rec [of _ 2] upt_rec [of _ "Suc 0"] eval_nat_numeral)


subsection \<open>Claim C3\<close>


text \<open>
  The lower bound 0 of the amplitude code needs the rounded square root to fit an \<open>int\<close>:
  for the same spectrum and \<open>q = 2^60\<close> the scaled amplitude is \<open>2^62\<close> and the code is
  \<open>-2^31\<close>, which passes the clip \<open>vq < Limit\<close>.
\<close>

lemma Example_HFExt_negative_amplitude:
  "Block_Encode_EncodePass_GetHFExtParams Example_HFExt_Data 0 3 (2 ^ 60) = (- (2 ^ 31), 0)"
proof -
  have "ULC_CompandedQuantizeUnsigned (2 ^ 60 * 4) = - (2 ^ 31)"
    using ULC_CompandedQuantizeUnsigned_wraps by simp
  moreover have "ULC_CompandedQuantizeUnsigned 0 = 0"
    by (simp add: ULC_CompandedQuantizeUnsigned_def)
  ultimately show ?thesis
    using Example_HFExt_LeastSquares
    by (simp add: Block_Encode_EncodePass_GetHFExtParams_def
        ULC_CompandedQuantizeCoefficientUnsigned_def Let_def)
qed



section \<open>ulcEncoder_BlockTransform.h: importance keys\<close>

text \<open>
  \<open>Block_Transform_InsertKeys\<close> walks the bands of one channel, splits quantizer bands and
  appends one key per codeable coefficient. The masking state and
  \<open>Block_Transform_UpdateMaskingThreshold\<close> live in \<open>ulcEncoder_Psycho.h\<close>, which is not
  part of the sources at hand: the update is a parameter of the model, a function from the
  masking state and the band to the new state, the mask level and the flatness
  (\<open>Coef\<close>, \<open>CoefNp\<close> and \<open>BlockSize\<close> are fixed during the loop). \<open>psy\<close> is the
  preprocessor switch \<open>ULC_USE_PSYCHOACOUSTICS\<close>.
\<close>

definition ULC_COEF_NEPER_OUT_OF_RANGE :: real where
  "ULC_COEF_NEPER_OUT_OF_RANGE = 0.0"

text \<open>
  Modelled from the spec: the macro \<open>ULC_MAX_QBANDS\<close> is not in the sources; the spec
  allows at most 48 quantizer zones per channel.
\<close>

definition ULC_MAX_QBANDS :: nat where
  "ULC_MAX_QBANDS = 48"

definition SQR :: "real \<Rightarrow> real" where
  "SQR x = x * x"

record AnalysisKey_t =
  Band  :: nat
  Chan  :: nat
  QBand :: nat
  Val   :: real

record 'ms InsertKeys_State =
  cur_QBand     :: nat
  cur_QBandAvg  :: real
  cur_QBandAvgW :: real
  cur_Masking   :: 'ms
  cur_Keys      :: "AnalysisKey_t list"

text \<open>
  The value stored in a key. The two float literals are \<open>0x1.BA18AAp1f\<close> and
  \<open>0x1.443438p1f\<close>, written as fractions over \<open>2 ^ 23\<close>.
  \<^verbatim>\<open>ValNp  = 0x1.BA18AAp1f*ValNp - 0x1.443438p1f*Mask;
  ValNp += 2.0f * 4.0f*SQR(Flat)*(SQR(Flat) - 1.0f);
  Keys[*nKeys].Val = expf(2.0f*ValNp + AnalysisPowerNp);\<close>
\<close>

definition InsertKeys_Val :: "bool \<Rightarrow> real \<Rightarrow> real \<Rightarrow> real \<Rightarrow> real \<Rightarrow> real" where
  "InsertKeys_Val psy ValNp Mask Flat AnalysisPowerNp =
     (let ValNp = (if psy
                   then (let ValNp = (28973226 / 8388608) * ValNp - (21247032 / 8388608) * Mask
                         in ValNp + 2.0 * 4.0 * SQR Flat * (SQR Flat - 1.0))
                   else ValNp)
      in exp (2.0 * ValNp + AnalysisPowerNp))"

text \<open>The body of the loop over \<open>Band\<close>.\<close>

definition InsertKeys_Band ::
    "bool \<Rightarrow> ('ms \<Rightarrow> nat \<Rightarrow> 'ms \<times> real \<times> real) \<Rightarrow> (nat \<Rightarrow> real) \<Rightarrow> (nat \<Rightarrow> real) \<Rightarrow>
     nat \<Rightarrow> real \<Rightarrow> real \<Rightarrow> nat \<Rightarrow> 'ms InsertKeys_State \<Rightarrow> 'ms InsertKeys_State" where
  "InsertKeys_Band psy UpdateMaskingThreshold Coef CoefNp chan AnalysisPowerNp QuantRange band s =
     (let ValNp = CoefNp band
      in if ValNp = ULC_COEF_NEPER_OUT_OF_RANGE then s
         else
           (let split = (((ValNp + QuantRange) * cur_QBandAvgW s < cur_QBandAvg s \<or>
                          (ValNp - QuantRange) * cur_QBandAvgW s > cur_QBandAvg s)
                         \<and> cur_QBand s < ULC_MAX_QBANDS - 1);
                qavg  = (if split then 0 else cur_QBandAvg s);
                qavgw = (if split then 0 else cur_QBandAvgW s);
                qband = (if split then cur_QBand s + 1 else cur_QBand s);
                qavg  = qavg  + SQR (Coef band) * ValNp;
                qavgw = qavgw + SQR (Coef band);
                (ms, Mask, Flat) = (if psy then UpdateMaskingThreshold (cur_Masking s) band
                                    else (cur_Masking s, 0, 0))
            in \<lparr>cur_QBand = qband, cur_QBandAvg = qavg, cur_QBandAvgW = qavgw,
                cur_Masking = ms,
                cur_Keys = cur_Keys s @
                  [\<lparr>Band = band, Chan = chan, QBand = qband,
                    Val = InsertKeys_Val psy ValNp Mask Flat AnalysisPowerNp\<rparr>]\<rparr>))"

text \<open>
  The function: \<open>MaskingState\<close> is the state after \<open>Block_Transform_MaskingState_Init\<close>,
  \<open>Keys\<close> the keys stored so far (\<open>*nKeys\<close> of them); the result is the key list after
  the channel.
\<close>

definition Block_Transform_InsertKeys ::
    "bool \<Rightarrow> ('ms \<Rightarrow> nat \<Rightarrow> 'ms \<times> real \<times> real) \<Rightarrow> 'ms \<Rightarrow> AnalysisKey_t list \<Rightarrow>
     (nat \<Rightarrow> real) \<Rightarrow> (nat \<Rightarrow> real) \<Rightarrow> nat \<Rightarrow> nat \<Rightarrow> real \<Rightarrow> real \<Rightarrow> AnalysisKey_t list" where
  "Block_Transform_InsertKeys psy UpdateMaskingThreshold MaskingState Keys Coef CoefNp BlockSize
       chan AnalysisPowerNp QuantRange =
     cur_Keys (fold (InsertKeys_Band psy UpdateMaskingThreshold Coef CoefNp chan
                       AnalysisPowerNp QuantRange)
                 [0..<BlockSize]
                 \<lparr>cur_QBand = 0, cur_QBandAvg = 0, cur_QBandAvgW = 0,
                  cur_Masking = MaskingState, cur_Keys = Keys\<rparr>)"

text \<open>
  For the statement of the claim: the bands that get a key, each with the mask level and
  the flatness the masking update returned for it, in loop order.
\<close>

fun MaskingTrace ::
    "('ms \<Rightarrow> nat \<Rightarrow> 'ms \<times> real \<times> real) \<Rightarrow> (nat \<Rightarrow> real) \<Rightarrow> 'ms \<Rightarrow> nat list \<Rightarrow>
     (nat \<times> real \<times> real) list" where
  "MaskingTrace upd CoefNp ms [] = []"
| "MaskingTrace upd CoefNp ms (band # bands) =
     (if CoefNp band = ULC_COEF_NEPER_OUT_OF_RANGE then MaskingTrace upd CoefNp ms bands
      else (case upd ms band of
              (ms', Mask, Flat) \<Rightarrow> (band, Mask, Flat) # MaskingTrace upd CoefNp ms' bands))"

lemma InsertKeys_fold_Val:
  "map Val (cur_Keys (fold (InsertKeys_Band True upd Coef CoefNp chan ap qr) bands s)) =
   map Val (cur_Keys s) @
   map (\<lambda>(band, Mask, Flat). InsertKeys_Val True (CoefNp band) Mask Flat ap)
     (MaskingTrace upd CoefNp (cur_Masking s) bands)"
proof (induction bands arbitrary: s)
  case Nil
  then show ?case by simp
next
  case (Cons band bands)
  show ?case
  proof (cases "CoefNp band = ULC_COEF_NEPER_OUT_OF_RANGE")
    case True
    then show ?thesis using Cons.IH [of s] by (simp add: InsertKeys_Band_def)
  next
    case False
    obtain ms Mask Flat where u: "upd (cur_Masking s) band = (ms, Mask, Flat)"
      by (cases "upd (cur_Masking s) band") auto
    show ?thesis
      using False u Cons.IH [of "InsertKeys_Band True upd Coef CoefNp chan ap qr band s"]
      by (simp add: InsertKeys_Band_def Let_def)
  qed
qed

lemma InsertKeys_Val_formula:
  "InsertKeys_Val True l m flat ap =
     exp (2 * ((28973226 / 8388608) * l - (21247032 / 8388608) * m)
          + 16 * flat\<^sup>2 * (flat\<^sup>2 - 1) + ap)"
  by (simp add: InsertKeys_Val_def SQR_def Let_def power2_eq_square algebra_simps)

subsection \<open>Claim C2\<close>

text \<open>
  C2, as stated: the score is \<open>exp(2*(3.455*l - 2.533*m) + 8*flat^2*(flat^2 - 1) + ap)\<close>.
  The code adds the flatness term to \<open>ValNp\<close> before it doubles \<open>ValNp\<close>, so the term
  enters the exponent twice. For one band with \<open>l = 1\<close>, \<open>m = 0\<close>, \<open>flat = 1/2\<close> and
  \<open>ap = 0\<close> the exponent of the code is \<open>2*3.4539 - 3\<close>, that of the claim
  \<open>2*3.455 - 1.5\<close>; the stored value differs from the claim's, with the claim's decimal
  constants and also with the exact constants of the code in their place.
\<close>

theorem C2_flatness_term_counterexample:
  "map Val (Block_Transform_InsertKeys True (\<lambda>ms band. (ms, 0, 1/2)) () []
              (\<lambda>band. exp 1) (\<lambda>band. 1) 1 0 0 1)
     \<noteq> [exp (2 * (3.455 * 1 - 2.533 * 0) + 8 * (1/2)\<^sup>2 * ((1/2)\<^sup>2 - 1) + 0)] \<and>
   map Val (Block_Transform_InsertKeys True (\<lambda>ms band. (ms, 0, 1/2)) () []
              (\<lambda>band. exp 1) (\<lambda>band. 1) 1 0 0 1)
     \<noteq> [exp (2 * ((28973226 / 8388608) * 1 - (21247032 / 8388608) * 0)
              + 8 * (1/2)\<^sup>2 * ((1/2)\<^sup>2 - 1) + 0)]"
  by (simp add: Block_Transform_InsertKeys_def InsertKeys_Band_def InsertKeys_Val_def
      ULC_COEF_NEPER_OUT_OF_RANGE_def SQR_def Let_def power2_eq_square)

text \<open>
  C2, amended: with psychoacoustics enabled, the keys the function appends are, in order,
  those of the bands whose log-amplitude is in range, and the score of the key of a band
  with log-amplitude \<open>l\<close>, for which the masking update returned the level \<open>m\<close> and the
  flatness \<open>flat\<close>, is
  \<open>exp(2*(c1*l - c2*m) + 16*flat^2*(flat^2 - 1) + ap)\<close>, where
  \<open>c1 = 0x1.BA18AAp1 = 3.4539...\<close> and \<open>c2 = 0x1.443438p1 = 2.5328...\<close>.
\<close>

theorem C2_importance_score:
  "map Val (Block_Transform_InsertKeys True upd ms [] Coef CoefNp BlockSize chan ap qr) =
   map (\<lambda>(band, m, flat).
          exp (2 * ((28973226 / 8388608) * CoefNp band - (21247032 / 8388608) * m)
               + 16 * flat\<^sup>2 * (flat\<^sup>2 - 1) + ap))
     (MaskingTrace upd CoefNp ms [0..<BlockSize])"
  by (simp add: Block_Transform_InsertKeys_def InsertKeys_fold_Val InsertKeys_Val_formula)

section \<open>Window control: \<open>Block_Transform_GetWindowCtrl\<close>\<close>

text \<open>
  \<open>Block_Transform_GetWindowCtrl\<close> first calls the transient filter, which leaves in
  \<open>StepBuffer\<close> one \<open>{Sum, SumW}\<close> pair per analysis segment
  (\<open>4 * ULC_HELPER_SUBBLOCK_INTERLEAVE_MODULO\<close> of them). The model starts from these
  pairs: \<open>TransientData\<close> is the buffer as a function of the index, and the pointer the
  loop moves is an offset into it. The macro \<open>ULC_HELPER_SUBBLOCK_INTERLEAVE_MODULO\<close> is
  not in the sources at hand and is a parameter; \<open>ULC_USE_WINDOW_SWITCHING\<close> is the
  preprocessor switch.
\<close>

datatype RatioPos_t = POS_L | POS_M | POS_R

record TransientFiltering_Sum_t =
  Sum  :: real
  SumW :: real

definition MIN_LOG :: real where
  "MIN_LOG = -100.0"

text \<open>
  The loop \<^verbatim>\<open>for(n=0;n<AnalysisLen;n++) SUM_DATA(Dst, TransientData[first + n]);\<close> for
  one of the four segment groups, and \<open>FINALIZE_DATA\<close>.
\<close>

definition SUM_DATA :: "(int \<Rightarrow> TransientFiltering_Sum_t) \<Rightarrow> int \<Rightarrow> nat \<Rightarrow> TransientFiltering_Sum_t" where
  "SUM_DATA TransientData first AnalysisLen =
     fold (\<lambda>n Dst. \<lparr>Sum  = Sum Dst  + Sum  (TransientData (first + int n)),
                     SumW = SumW Dst + SumW (TransientData (first + int n))\<rparr>)
       [0..<AnalysisLen] \<lparr>Sum = 0, SumW = 0\<rparr>"

definition FINALIZE_DATA :: "TransientFiltering_Sum_t \<Rightarrow> real" where
  "FINALIZE_DATA x = (if Sum x \<noteq> 0 then Sum x / SumW x else MIN_LOG)"

text \<open>The three log-ratios \<open>RatioL\<close>, \<open>RatioM\<close>, \<open>RatioR\<close> of the groups LL/L/M/R.\<close>

definition SegmentRatios :: "(int \<Rightarrow> TransientFiltering_Sum_t) \<Rightarrow> int \<Rightarrow> nat \<Rightarrow> real \<times> real \<times> real" where
  "SegmentRatios TransientData offs AnalysisLen =
     (let LL = FINALIZE_DATA (SUM_DATA TransientData (offs - 1 * int AnalysisLen) AnalysisLen);
          L  = FINALIZE_DATA (SUM_DATA TransientData (offs + 0 * int AnalysisLen) AnalysisLen);
          M  = FINALIZE_DATA (SUM_DATA TransientData (offs + 1 * int AnalysisLen) AnalysisLen);
          R  = FINALIZE_DATA (SUM_DATA TransientData (offs + 2 * int AnalysisLen) AnalysisLen)
      in (L - LL, M - L, R - M))"

text \<open>
  \<^verbatim>\<open>RatioPos = POS_L, Ratio = RatioL;
  if(RatioM > Ratio) RatioPos = POS_M, Ratio = RatioM;
  if(RatioR > Ratio) RatioPos = POS_R, Ratio = RatioR;\<close>
\<close>

definition PeakRatio :: "real \<times> real \<times> real \<Rightarrow> RatioPos_t \<times> real" where
  "PeakRatio rs =
     (case rs of (RatioL, RatioM, RatioR) \<Rightarrow>
        (let (RatioPos, Ratio) = (POS_L, RatioL);
             (RatioPos, Ratio) = (if RatioM > Ratio then (POS_M, RatioM) else (RatioPos, Ratio));
             (RatioPos, Ratio) = (if RatioR > Ratio then (POS_R, RatioR) else (RatioPos, Ratio))
         in (RatioPos, Ratio)))"

text \<open>The decimation threshold \<open>0x1.62E430p-1f\<close>, the single-precision value of \<open>ln 2\<close>.\<close>

definition Log2_Threshold :: real where
  "Log2_Threshold = 1453635 / 2097152"

text \<open>
  The search loop \<^verbatim>\<open>for(TransientData += AnalysisLen;;)\<close>. The model returns one record
  per pass through the loop body: the loop variables on entry and the peak ratio found;
  the last record is the pass that leaves the loop.
\<close>

record Descent_Iteration =
  it_Decimation   :: nat
  it_SubBlockSize :: nat
  it_AnalysisLen  :: nat
  it_Offset       :: int
  it_RatioPos     :: RatioPos_t
  it_Ratio        :: real

function Descent ::
    "bool \<Rightarrow> (int \<Rightarrow> TransientFiltering_Sum_t) \<Rightarrow> int \<Rightarrow> nat \<Rightarrow> nat \<Rightarrow> nat \<Rightarrow> Descent_Iteration list" where
  "Descent ULC_USE_WINDOW_SWITCHING TransientData offs Decimation SubBlockSize AnalysisLen =
     (let (RatioPos, Ratio) = PeakRatio (SegmentRatios TransientData offs AnalysisLen);
          it = \<lparr>it_Decimation = Decimation, it_SubBlockSize = SubBlockSize,
                it_AnalysisLen = AnalysisLen, it_Offset = offs,
                it_RatioPos = RatioPos, it_Ratio = Ratio\<rparr>
      in if ULC_USE_WINDOW_SWITCHING \<and> AnalysisLen > 1 \<and> SubBlockSize > 64 \<and>
            RatioPos \<noteq> POS_R \<and> Ratio > Log2_Threshold
         then it #
              (if RatioPos = POS_L
               then Descent ULC_USE_WINDOW_SWITCHING TransientData offs
                      (push_bit 1 Decimation OR 0) (SubBlockSize div 2) (AnalysisLen div 2)
               else Descent ULC_USE_WINDOW_SWITCHING TransientData (offs + int AnalysisLen)
                      (push_bit 1 Decimation OR 1) (SubBlockSize div 2) (AnalysisLen div 2))
         else [it])"
  by pat_completeness auto
termination
  by (relation "measure (\<lambda>(ws, TD, offs, Dec, SBS, AnalysisLen). AnalysisLen)") auto

declare Descent.simps [simp del]

text \<open>The C conversion \<open>(int)x\<close> of a float truncates towards zero.\<close>

definition c_trunc :: "real \<Rightarrow> int" where
  "c_trunc x = (if 0 \<le> x then \<lfloor>x\<rfloor> else \<lceil>x\<rceil>)"

text \<open>\<open>31 - __builtin_clz(n)\<close> for \<open>n \<ge> 1\<close>: the position of the highest set bit.\<close>

fun IntLog2 :: "nat \<Rightarrow> nat" where
  "IntLog2 n = (if n < 2 then 0 else Suc (IntLog2 (n div 2)))"

declare IntLog2.simps [simp del]

text \<open>
  The overlap scale from the ratio; the float literals are \<open>0x1.149A78p2f\<close>
  (\<open>4.3219...\<close>, \<open>log2(1000/50)\<close>) and \<open>-0x1.715476p0f\<close> (\<open>-1.4427...\<close>, \<open>-1/ln 2\<close>).
\<close>

definition OverlapScale_FromRatio :: "nat \<Rightarrow> real \<Rightarrow> real \<Rightarrow> int" where
  "OverlapScale_FromRatio SubBlockSize RateHz Ratio =
     (let Log2SubBlockSize = real (IntLog2 SubBlockSize);
          Log2OverlapSamplesScale =
            Log2SubBlockSize + (2265935 / 524288) + - (12102203 / 8388608) * (ln RateHz - Ratio)
      in if Log2OverlapSamplesScale > 0.0
         then (if Log2OverlapSamplesScale \<ge> 6.5 then 7 else c_trunc (Log2OverlapSamplesScale + 0.5))
         else 0)"

text \<open>
  \<^verbatim>\<open>while((SubBlockSize >> OverlapScale) < 16) OverlapScale--;\<close>
  A negative \<open>OverlapScale\<close> would be used as a shift count, which C leaves undefined:
  the model stops with \<open>None\<close>.
\<close>

function MinimumOverlap :: "nat \<Rightarrow> int \<Rightarrow> int option" where
  "MinimumOverlap SubBlockSize OverlapScale =
     (if OverlapScale < 0 then None
      else if drop_bit (nat OverlapScale) SubBlockSize < 16
           then MinimumOverlap SubBlockSize (OverlapScale - 1)
           else Some OverlapScale)"
  by pat_completeness auto
termination
  by (relation "measure (\<lambda>(SBS, s). nat (s + 1))") auto

declare MinimumOverlap.simps [simp del]

text \<open>The function, from the segment sums on; \<open>None\<close> is the undefined shift.\<close>

definition Block_Transform_GetWindowCtrl ::
    "bool \<Rightarrow> nat \<Rightarrow> (int \<Rightarrow> TransientFiltering_Sum_t) \<Rightarrow> nat \<Rightarrow> real \<Rightarrow> int option" where
  "Block_Transform_GetWindowCtrl ULC_USE_WINDOW_SWITCHING ULC_HELPER_SUBBLOCK_INTERLEAVE_MODULO
       TransientData BlockSize RateHz =
     (let fin = last (Descent ULC_USE_WINDOW_SWITCHING TransientData
                        (int ULC_HELPER_SUBBLOCK_INTERLEAVE_MODULO) 1 BlockSize
                        ULC_HELPER_SUBBLOCK_INTERLEAVE_MODULO);
          Decimation = it_Decimation fin;
          SubBlockSize = it_SubBlockSize fin
      in map_option
           (\<lambda>OverlapScale. OverlapScale + 0x8 * (if Decimation \<noteq> 1 then 1 else 0) + 0x10 * int Decimation)
           (MinimumOverlap SubBlockSize (OverlapScale_FromRatio SubBlockSize RateHz (it_Ratio fin))))"

text \<open>
  An input for the examples: silence in the first 8 segments, then a steady level
  (a transient at the start of group L), for a modulo of 8.
\<close>

definition Example_TransientData :: "int \<Rightarrow> TransientFiltering_Sum_t" where
  "Example_TransientData i = (if 8 \<le> i then \<lparr>Sum = 1, SumW = 1\<rparr> else \<lparr>Sum = 0, SumW = 0\<rparr>)"

subsection \<open>Facts about the search and the overlap scale\<close>

lemma IntLog2_pow2: "IntLog2 (2 ^ k) = k"
proof (induction k)
  case 0
  then show ?case by (simp add: IntLog2.simps)
next
  case (Suc k)
  have "\<not> (2::nat) ^ Suc k < 2" by simp
  then show ?case using Suc by (subst IntLog2.simps) simp
qed

lemma OverlapScale_clamp:
  "(if x > 0.0 then (if x \<ge> 6.5 then 7 else c_trunc (x + 0.5)) else 0) =
   max 0 (min 7 (round (x::real)))"
proof -
  consider "x \<le> 0" | "0 < x" "x < 6.5" | "6.5 \<le> x" by linarith
  then show ?thesis
  proof cases
    case 1
    then have "round x \<le> 0" unfolding round_def by linarith
    with 1 show ?thesis by simp
  next
    case 2
    then have "0 \<le> round x" "round x \<le> 6" unfolding round_def by linarith+
    moreover from 2 have "c_trunc (x + 0.5) = round x"
      by (simp add: c_trunc_def round_def)
    ultimately show ?thesis using 2 by simp
  next
    case 3
    then have "7 \<le> round x" unfolding round_def by linarith
    with 3 show ?thesis by simp
  qed
qed

lemma MinimumOverlap_result:
  assumes "16 \<le> SubBlockSize" "0 \<le> s0"
  shows "\<exists>s. MinimumOverlap SubBlockSize s0 = Some s \<and> 0 \<le> s \<and> s \<le> s0 \<and>
             (\<forall>t. s < t \<and> t \<le> s0 \<longrightarrow> drop_bit (nat t) SubBlockSize < 16) \<and>
             16 \<le> drop_bit (nat s) SubBlockSize"
  using assms
proof (induction SubBlockSize s0 rule: MinimumOverlap.induct)
  case (1 SubBlockSize s0)
  show ?case
  proof (cases "drop_bit (nat s0) SubBlockSize < 16")
    case False
    with 1(3) show ?thesis
      by (subst MinimumOverlap.simps) auto
  next
    case True
    have "s0 \<noteq> 0" using True 1(2) by (auto simp: )
    with 1(3) have pos: "0 \<le> s0 - 1" by simp
    from 1(3) have nn: "\<not> s0 < 0" by simp
    from "1.IH" [OF nn True 1(2) pos]
    obtain s where s: "MinimumOverlap SubBlockSize (s0 - 1) = Some s" "0 \<le> s" "s \<le> s0 - 1"
       "\<forall>t. s < t \<and> t \<le> s0 - 1 \<longrightarrow> drop_bit (nat t) SubBlockSize < 16"
       "16 \<le> drop_bit (nat s) SubBlockSize" by blast
    have "MinimumOverlap SubBlockSize s0 = Some s"
      using True nn s(1) by (subst MinimumOverlap.simps) simp
    moreover have "drop_bit (nat t) SubBlockSize < 16" if "s < t" "t \<le> s0" for t
    proof (cases "t = s0")
      case True
      with \<open>drop_bit (nat s0) SubBlockSize < 16\<close> show ?thesis by simp
    next
      case False
      with that s(4) show ?thesis by auto
    qed
    ultimately show ?thesis using s(2,3,5) by auto
  qed
qed

lemma shift_or_0: "push_bit 1 d OR (0::nat) = 2 * d"
  by (simp add: push_bit_eq_mult)

lemma shift_or_1: "push_bit 1 d OR (1::nat) = 2 * d + 1"
proof -
  have "push_bit 1 d OR (1::nat) = push_bit 1 d + of_bool (even (push_bit 1 d :: nat))"
    by (rule or_one_eq)
  also have "\<dots> = 2 * d + 1" by (simp add: push_bit_eq_mult)
  finally show ?thesis .
qed

lemma Descent_unfold:
  "Descent ws TD offs Dec SBS AL =
     (let pr = PeakRatio (SegmentRatios TD offs AL);
          it = \<lparr>it_Decimation = Dec, it_SubBlockSize = SBS, it_AnalysisLen = AL, it_Offset = offs,
                it_RatioPos = fst pr, it_Ratio = snd pr\<rparr>
      in if ws \<and> AL > 1 \<and> SBS > 64 \<and> fst pr \<noteq> POS_R \<and> snd pr > Log2_Threshold
         then it # Descent ws TD (if fst pr = POS_L then offs else offs + int AL)
                     (2 * Dec + (if fst pr = POS_L then 0 else 1)) (SBS div 2) (AL div 2)
         else [it])"
  apply (subst Descent.simps)
  apply (simp only: shift_or_0 shift_or_1)
  apply (simp add: Let_def case_prod_beta)
  done

lemma Descent_hd:
  "\<exists>rest. Descent ws TD offs Dec SBS AL =
     \<lparr>it_Decimation = Dec, it_SubBlockSize = SBS, it_AnalysisLen = AL, it_Offset = offs,
      it_RatioPos = fst (PeakRatio (SegmentRatios TD offs AL)),
      it_Ratio = snd (PeakRatio (SegmentRatios TD offs AL))\<rparr> # rest"
  by (subst Descent_unfold) (simp add: Let_def)

lemma PeakRatio_largest:
  "snd (PeakRatio (RatioL, RatioM, RatioR)) = max RatioL (max RatioM RatioR) \<and>
   (fst (PeakRatio (RatioL, RatioM, RatioR)) = POS_L) = (RatioM \<le> RatioL \<and> RatioR \<le> RatioL) \<and>
   (fst (PeakRatio (RatioL, RatioM, RatioR)) = POS_M) = (RatioL < RatioM \<and> RatioR \<le> RatioM) \<and>
   (fst (PeakRatio (RatioL, RatioM, RatioR)) = POS_R) = (max RatioL RatioM < RatioR)"
  by (auto simp: PeakRatio_def Let_def)

definition Descent_Step :: "bool \<Rightarrow> (int \<Rightarrow> TransientFiltering_Sum_t) \<Rightarrow> Descent_Iteration list \<Rightarrow> nat \<Rightarrow> bool" where
  "Descent_Step ws TD its i =
     ((it_RatioPos (its ! i), it_Ratio (its ! i)) =
           PeakRatio (SegmentRatios TD (it_Offset (its ! i)) (it_AnalysisLen (its ! i))) \<and>
      (Suc i < length its) =
           (ws \<and> 1 < it_AnalysisLen (its ! i) \<and> 64 < it_SubBlockSize (its ! i) \<and>
            it_RatioPos (its ! i) \<noteq> POS_R \<and> Log2_Threshold < it_Ratio (its ! i)) \<and>
      (Suc i < length its \<longrightarrow>
            it_Decimation (its ! Suc i) =
              2 * it_Decimation (its ! i) + (if it_RatioPos (its ! i) = POS_L then 0 else 1) \<and>
            it_SubBlockSize (its ! Suc i) = it_SubBlockSize (its ! i) div 2 \<and>
            it_AnalysisLen (its ! Suc i) = it_AnalysisLen (its ! i) div 2 \<and>
            it_Offset (its ! Suc i) =
              (if it_RatioPos (its ! i) = POS_L then it_Offset (its ! i)
               else it_Offset (its ! i) + int (it_AnalysisLen (its ! i)))))"

lemma Descent_Step_Cons: "Descent_Step ws TD (x # its) (Suc i) = Descent_Step ws TD its i"
  by (simp add: Descent_Step_def)

lemma Descent_nth:
  "i < length (Descent ws TD offs Dec SBS AL) \<Longrightarrow>
   Descent_Step ws TD (Descent ws TD offs Dec SBS AL) i"
proof (induction i arbitrary: offs Dec SBS AL)
  case 0
  let ?pr = "PeakRatio (SegmentRatios TD offs AL)"
  let ?it = "\<lparr>it_Decimation = Dec, it_SubBlockSize = SBS, it_AnalysisLen = AL, it_Offset = offs,
                it_RatioPos = fst ?pr, it_Ratio = snd ?pr\<rparr>"
  let ?c = "ws \<and> AL > 1 \<and> SBS > 64 \<and> fst ?pr \<noteq> POS_R \<and> snd ?pr > Log2_Threshold"
  let ?offs' = "if fst ?pr = POS_L then offs else offs + int AL"
  let ?Dec' = "2 * Dec + (if fst ?pr = POS_L then 0 else 1)"
  show ?case
  proof (cases ?c)
    case True
    then have u: "Descent ws TD offs Dec SBS AL = ?it # Descent ws TD ?offs' ?Dec' (SBS div 2) (AL div 2)"
      by (subst Descent_unfold) (simp add: Let_def)
    from Descent_hd [of ws TD ?offs' ?Dec' "SBS div 2" "AL div 2"]
    obtain rest where r: "Descent ws TD ?offs' ?Dec' (SBS div 2) (AL div 2) =
       \<lparr>it_Decimation = ?Dec', it_SubBlockSize = SBS div 2, it_AnalysisLen = AL div 2, it_Offset = ?offs',
        it_RatioPos = fst (PeakRatio (SegmentRatios TD ?offs' (AL div 2))),
        it_Ratio = snd (PeakRatio (SegmentRatios TD ?offs' (AL div 2)))\<rparr> # rest" by blast
    show ?thesis unfolding u r Descent_Step_def using True by simp
  next
    case False
    have u: "Descent ws TD offs Dec SBS AL = [?it]"
      by (subst Descent_unfold) (simp only: Let_def False if_False)
    show ?thesis unfolding u Descent_Step_def using False by auto
  qed
next
  case (Suc i)
  let ?pr = "PeakRatio (SegmentRatios TD offs AL)"
  let ?it = "\<lparr>it_Decimation = Dec, it_SubBlockSize = SBS, it_AnalysisLen = AL, it_Offset = offs,
                it_RatioPos = fst ?pr, it_Ratio = snd ?pr\<rparr>"
  let ?c = "ws \<and> AL > 1 \<and> SBS > 64 \<and> fst ?pr \<noteq> POS_R \<and> snd ?pr > Log2_Threshold"
  let ?offs' = "if fst ?pr = POS_L then offs else offs + int AL"
  let ?Dec' = "2 * Dec + (if fst ?pr = POS_L then 0 else 1)"
  show ?case
  proof (cases ?c)
    case True
    then have u: "Descent ws TD offs Dec SBS AL = ?it # Descent ws TD ?offs' ?Dec' (SBS div 2) (AL div 2)"
      by (subst Descent_unfold) (simp add: Let_def)
    from Suc.prems have "i < length (Descent ws TD ?offs' ?Dec' (SBS div 2) (AL div 2))"
      unfolding u by simp
    from Suc.IH [OF this] show ?thesis
      unfolding u Descent_Step_Cons .
  next
    case False
    have u: "Descent ws TD offs Dec SBS AL = [?it]"
      by (subst Descent_unfold) (simp only: Let_def False if_False)
    with Suc.prems show ?thesis by simp
  qed
qed


lemma upt_small: "[0..<8] = [0,1,2,3,4,5,6,7]" "[0..<4] = [0,1,2,3]" "[0..<2] = [0,1]" "[0..<1] = [0]"
  by (simp_all add: upt_rec)

lemma Example_Descent: "Descent True Example_TransientData 8 1 2048 8 =
   [\<lparr>it_Decimation = 1, it_SubBlockSize = 2048, it_AnalysisLen = 8, it_Offset = 8, it_RatioPos = POS_L, it_Ratio = 101\<rparr>,
    \<lparr>it_Decimation = 2, it_SubBlockSize = 1024, it_AnalysisLen = 4, it_Offset = 8, it_RatioPos = POS_L, it_Ratio = 101\<rparr>,
    \<lparr>it_Decimation = 4, it_SubBlockSize = 512, it_AnalysisLen = 2, it_Offset = 8, it_RatioPos = POS_L, it_Ratio = 101\<rparr>,
    \<lparr>it_Decimation = 8, it_SubBlockSize = 256, it_AnalysisLen = 1, it_Offset = 8, it_RatioPos = POS_L, it_Ratio = 101\<rparr>]"
  by (simp add: Descent_unfold SegmentRatios_def SUM_DATA_def FINALIZE_DATA_def PeakRatio_def
      Example_TransientData_def MIN_LOG_def Log2_Threshold_def Let_def upt_small)

lemma ln2_less_101: "ln (2::real) < 101"
proof -
  have "ln (2::real) < 2" by (rule ln_less_self) simp
  then show ?thesis by linarith
qed

lemma IntLog2_256: "IntLog2 256 = 8"
  using IntLog2_pow2 [of 8] by simp


subsection \<open>Claim C4\<close>

text \<open>
  The sub-block size the search ends with is a power of two of at least 16 when the block
  size is one.
\<close>

lemma Descent_last_size:
  "SBS = 2 ^ k \<Longrightarrow> 4 \<le> k \<Longrightarrow>
   \<exists>j. 4 \<le> j \<and> j \<le> k \<and> it_SubBlockSize (last (Descent ws TD offs Dec SBS AL)) = 2 ^ j"
proof (induction AL arbitrary: offs Dec SBS k rule: less_induct)
  case (less AL)
  let ?pr = "PeakRatio (SegmentRatios TD offs AL)"
  let ?it = "\<lparr>it_Decimation = Dec, it_SubBlockSize = SBS, it_AnalysisLen = AL, it_Offset = offs,
                it_RatioPos = fst ?pr, it_Ratio = snd ?pr\<rparr>"
  let ?c = "ws \<and> AL > 1 \<and> SBS > 64 \<and> fst ?pr \<noteq> POS_R \<and> snd ?pr > Log2_Threshold"
  let ?offs' = "if fst ?pr = POS_L then offs else offs + int AL"
  let ?Dec' = "2 * Dec + (if fst ?pr = POS_L then 0 else 1)"
  show ?case
  proof (cases ?c)
    case True
    then have u: "Descent ws TD offs Dec SBS AL = ?it # Descent ws TD ?offs' ?Dec' (SBS div 2) (AL div 2)"
      by (subst Descent_unfold) (simp add: Let_def)
    from Descent_hd [of ws TD ?offs' ?Dec' "SBS div 2" "AL div 2"]
    have ne: "Descent ws TD ?offs' ?Dec' (SBS div 2) (AL div 2) \<noteq> []" by auto
    from True have al: "AL div 2 < AL" by simp
    from True less.prems(1) have "(2::nat) ^ 6 < 2 ^ k" by simp
    then have k6: "6 < k" by (simp only: power_strict_increasing_iff)
    then obtain k' where k': "k = Suc k'" by (cases k) simp_all
    with k6 have k'4: "4 \<le> k'" by simp
    have half: "SBS div 2 = 2 ^ k'" using less.prems(1) k' by simp
    from less.IH [OF al half k'4, of ?offs' ?Dec']
    obtain j where j: "4 \<le> j" "j \<le> k'"
      "it_SubBlockSize (last (Descent ws TD ?offs' ?Dec' (SBS div 2) (AL div 2))) = 2 ^ j"
      by blast
    have "last (Descent ws TD offs Dec SBS AL) =
        last (Descent ws TD ?offs' ?Dec' (SBS div 2) (AL div 2))"
      unfolding u using ne by simp
    with j k' show ?thesis by (intro exI [of _ j]) simp
  next
    case False
    have u: "Descent ws TD offs Dec SBS AL = [?it]"
      by (subst Descent_unfold) (simp only: Let_def False if_False)
    show ?thesis unfolding u using less.prems by (intro exI [of _ k]) simp
  qed
qed

text \<open>
  An input for the counterexample: at 44100 Hz and with a modulo of 8, three segment
  groups at the same level and the group R above them by \<open>ln 44100 - 8.9\<close> (about 1.79).
  The peak ratio lies in R, so the search leaves in its first pass with the whole block
  of 2048 samples and that ratio.
\<close>

definition Example_Ratio :: real where
  "Example_Ratio = ln 44100 - 89/10"

definition Example_RatioData :: "int \<Rightarrow> TransientFiltering_Sum_t" where
  "Example_RatioData i =
     (if i < 24 then \<lparr>Sum = 1, SumW = 1\<rparr> else \<lparr>Sum = 1 + Example_Ratio, SumW = 1\<rparr>)"

lemma Example_Ratio_pos: "0 < Example_Ratio"
proof -
  have "exp (89/10 :: real) \<le> exp 9" by simp
  also have "exp (9 :: real) = exp 1 ^ 9"
    using exp_of_nat_mult [of 9 "1 :: real"] by simp
  also have "\<dots> \<le> (3 :: real) ^ 9"
    by (rule power_mono) (simp_all add: exp_le)
  also have "\<dots> < 44100" by simp
  finally have "exp (89/10 :: real) < 44100" .
  then have "ln (exp (89/10 :: real)) < ln 44100"
    by (subst ln_less_cancel_iff) simp_all
  then show ?thesis by (simp add: Example_Ratio_def)
qed

lemma Example_Ratio_Descent:
  "Descent True Example_RatioData 8 1 2048 8 =
     [\<lparr>it_Decimation = 1, it_SubBlockSize = 2048, it_AnalysisLen = 8, it_Offset = 8,
       it_RatioPos = POS_R, it_Ratio = Example_Ratio\<rparr>]"
proof -
  have ne: "8 + Example_Ratio * 8 \<noteq> 0" using Example_Ratio_pos by simp
  have sr: "SegmentRatios Example_RatioData 8 8 = (0, 0, Example_Ratio)"
    using ne by (simp add: SegmentRatios_def SUM_DATA_def FINALIZE_DATA_def Example_RatioData_def
        Let_def upt_small algebra_simps)
  have pr: "PeakRatio (0, 0, Example_Ratio) = (POS_R, Example_Ratio)"
    using Example_Ratio_pos by (simp add: PeakRatio_def Let_def)
  show ?thesis
    by (subst Descent_unfold) (simp add: sr pr Let_def)
qed

lemma IntLog2_2048: "IntLog2 2048 = 11"
  using IntLog2_pow2 [of 11] by simp

lemma Example_Ratio_OverlapScale: "OverlapScale_FromRatio 2048 44100 Example_Ratio = 2"
proof -
  have d: "ln 44100 - Example_Ratio = 89/10" by (simp add: Example_Ratio_def)
  show ?thesis
    unfolding OverlapScale_FromRatio_def Let_def IntLog2_2048 d
    by (simp add: c_trunc_def)
qed

text \<open>
  C4, as stated: the scale is \<open>clamp(round(log2(sub_block_size) + 4.32 - 1.44*(ln rate - r)), 0, 7)\<close>.
  The constants of the code are \<open>0x1.149A78p2f = 4.32192...\<close> and
  \<open>0x1.715476p0f = 1.44269...\<close>, and the two decimals matter: for a block of 2048
  samples at 44100 Hz whose final ratio is \<open>ln 44100 - 8.9\<close> the code computes
  \<open>11 + 4.32192 - 1.44269 * 8.9 = 2.48\<close> and returns the scale 2 (window control
  \<open>0x12\<close>), where the stated formula gives \<open>11 + 4.32 - 1.44 * 8.9 = 2.504\<close> and the
  scale 3, for which the overlap \<open>2048 >> 3\<close> is still above 16.
\<close>

theorem C4_rounded_constants_counterexample:
  "Block_Transform_GetWindowCtrl True 8 Example_RatioData 2048 44100 = Some 0x12 \<and>
   it_Ratio (last (Descent True Example_RatioData 8 1 2048 8)) = ln 44100 - 89/10 \<and>
   max 0 (min 7 (round (log 2 2048 + 4.32 - 1.44 * (ln 44100 - (ln 44100 - 89/10)) :: real))) = 3 \<and>
   16 \<le> drop_bit 3 (2048 :: nat)"
proof -
  have m: "MinimumOverlap 2048 2 = Some 2"
    by (simp add: MinimumOverlap.simps drop_bit_eq_div)
  have d: "Descent True Example_RatioData (int 8) 1 2048 8 =
     [\<lparr>it_Decimation = 1, it_SubBlockSize = 2048, it_AnalysisLen = 8, it_Offset = 8,
       it_RatioPos = POS_R, it_Ratio = Example_Ratio\<rparr>]"
    using Example_Ratio_Descent by simp
  have a: "Block_Transform_GetWindowCtrl True 8 Example_RatioData 2048 44100 = Some 0x12"
    unfolding Block_Transform_GetWindowCtrl_def Let_def d
    by (simp add: Example_Ratio_OverlapScale m)
  have b: "it_Ratio (last (Descent True Example_RatioData 8 1 2048 8)) = ln 44100 - 89/10"
    unfolding Example_Ratio_Descent by (simp add: Example_Ratio_def)
  have "log 2 (2048 :: real) = 11"
    using log_nat_power [of 2 2 11] by simp
  then have c: "max 0 (min 7 (round (log 2 2048 + 4.32 - 1.44 * (ln 44100 - (ln 44100 - 89/10)) :: real))) = 3"
    by (simp add: round_def)
  have d: "16 \<le> drop_bit 3 (2048 :: nat)" by (simp add: drop_bit_eq_div)
  from a b c d show ?thesis by (intro conjI)
qed

text \<open>
  C4, amended: for every block size \<open>2 ^ k\<close> with \<open>k \<ge> 4\<close>, every positive sample rate
  and all segment sums, with or without window switching, \<open>Block_Transform_GetWindowCtrl\<close>
  returns \<open>s + 8 * (Decimation \<noteq> 1) + 16 * Decimation\<close>, where \<open>Decimation\<close>, the
  sub-block size \<open>S\<close> and the ratio \<open>r\<close> are those the search ends with and the overlap
  scale \<open>s\<close> is the largest one not above
  \<open>s0 = clamp(round(log2(S) + c1 - c2*(ln RateHz - r)), 0, 7)\<close> with \<open>S >> s \<ge> 16\<close>;
  rounding is half up, \<open>c1 = 0x1.149A78p2 = 2265935 / 2^19\<close> and
  \<open>c2 = 0x1.715476p0 = 12102203 / 2^23\<close>. The overlap \<open>S >> s\<close> is at least 16 and at
  most the sub-block size.
\<close>

theorem C4_overlap_scale:
  fixes RateHz :: real
  defines "c1 \<equiv> 2265935 / 524288" and "c2 \<equiv> 12102203 / 8388608"
  assumes "BlockSize = 2 ^ k" "4 \<le> k" "0 < RateHz"
  shows "\<exists>s fin S s0.
      fin = last (Descent ws TD (int m) 1 BlockSize m) \<and>
      S = it_SubBlockSize fin \<and>
      s0 = max 0 (min 7 (round (log 2 (real S) + c1 - c2 * (ln RateHz - it_Ratio fin)))) \<and>
      Block_Transform_GetWindowCtrl ws m TD BlockSize RateHz =
        Some (s + 0x8 * (if it_Decimation fin \<noteq> 1 then 1 else 0) + 0x10 * int (it_Decimation fin)) \<and>
      0 \<le> s \<and> s \<le> s0 \<and>
      (\<forall>t. s < t \<and> t \<le> s0 \<longrightarrow> drop_bit (nat t) S < 16) \<and>
      16 \<le> drop_bit (nat s) S \<and> drop_bit (nat s) S \<le> S"
proof -
  define fin where "fin = last (Descent ws TD (int m) 1 BlockSize m)"
  define S where "S = it_SubBlockSize fin"
  define s0 where "s0 = max 0 (min 7 (round (log 2 (real S) + c1 - c2 * (ln RateHz - it_Ratio fin))))"
  from Descent_last_size [OF assms(3,4), of ws TD "int m" 1 m]
  obtain j where j: "4 \<le> j" "S = 2 ^ j"
    unfolding S_def fin_def by blast
  have lg: "log 2 (real S) = real j"
    using j(2) by (simp add: log_nat_power)
  have il: "real (IntLog2 S) = real j"
    using j(2) by (simp add: IntLog2_pow2)
  have scale: "OverlapScale_FromRatio S RateHz (it_Ratio fin) = s0"
    unfolding OverlapScale_FromRatio_def Let_def il s0_def lg c1_def c2_def
    using OverlapScale_clamp [of "real j + 2265935 / 524288 + - (12102203 / 8388608) * (ln RateHz - it_Ratio fin)"]
    by simp
  have nonneg: "0 \<le> s0" unfolding s0_def by simp
  have "(2::nat) ^ 4 \<le> 2 ^ j" using j(1) by (intro power_increasing) simp_all
  with j(2) have big: "16 \<le> S" by simp
  from MinimumOverlap_result [OF big nonneg]
  obtain s where s: "MinimumOverlap S s0 = Some s" "0 \<le> s" "s \<le> s0"
    "\<forall>t. s < t \<and> t \<le> s0 \<longrightarrow> drop_bit (nat t) S < 16"
    "16 \<le> drop_bit (nat s) S" by blast
  have le: "drop_bit (nat s) S \<le> S"
    by (simp add: drop_bit_eq_div)
  have call: "Block_Transform_GetWindowCtrl ws m TD BlockSize RateHz =
        Some (s + 0x8 * (if it_Decimation fin \<noteq> 1 then 1 else 0) + 0x10 * int (it_Decimation fin))"
    unfolding Block_Transform_GetWindowCtrl_def Let_def fin_def [symmetric] S_def [symmetric] scale s(1)
    by simp
  show ?thesis
    apply (rule exI [of _ s])
    apply (rule exI [of _ fin])
    apply (rule exI [of _ S])
    apply (rule exI [of _ s0])
    apply (intro conjI)
            apply (rule fin_def)
           apply (rule S_def)
          apply (rule s0_def)
         apply (rule call)
        apply (rule s(2))
       apply (rule s(3))
      apply (rule s(4))
     apply (rule s(5))
    apply (rule le)
    done
qed

theorem C4_overlap_scale_witness:
  "(2048 :: nat) = 2 ^ 11 \<and> (4 :: nat) \<le> 11 \<and> (0 :: real) < 44100 \<and>
   Block_Transform_GetWindowCtrl True 8 Example_TransientData 2048 44100 = Some 0x8C \<and>
   (\<exists>s. (0x8C :: int) = s + 0x8 + 0x10 * 8 \<and> 0 \<le> s \<and> 16 \<le> drop_bit (nat s) (256 :: nat))"
proof -
  have fin: "last (Descent True Example_TransientData (int 8) 1 2048 8) =
      \<lparr>it_Decimation = 8, it_SubBlockSize = 256, it_AnalysisLen = 1, it_Offset = 8,
       it_RatioPos = POS_L, it_Ratio = 101\<rparr>"
    using Example_Descent by simp
  from C4_overlap_scale [of 2048 11 44100 True Example_TransientData 8]
  obtain s where s: "Block_Transform_GetWindowCtrl True 8 Example_TransientData 2048 44100 =
        Some (s + 0x8 + 0x10 * 8)" "0 \<le> s" "16 \<le> drop_bit (nat s) (256 :: nat)"
    unfolding fin by auto
  have os: "OverlapScale_FromRatio 256 44100 101 = 7"
  proof -
    have "ln (44100 :: real) \<le> ln (2 ^ 16)" by (subst ln_le_cancel_iff) simp_all
    also have "\<dots> = 16 * ln 2" using ln_realpow [of 2 16] by simp
    also have "\<dots> < 16 * 2" using ln_less_self [of 2] by simp
    finally have bound: "ln (44100 :: real) < 32" by simp
    then have ge: "13/2 \<le> real 8 + 2265935 / 524288 + - (12102203 / 8388608) * (ln 44100 - 101)"
      by (simp add: field_simps)
    from bound ge show ?thesis
      by (simp add: OverlapScale_FromRatio_def IntLog2_256 Let_def)
  qed
  have mo: "MinimumOverlap 256 7 = Some 4"
    by (simp add: MinimumOverlap.simps drop_bit_eq_div)
  have d: "Descent True Example_TransientData (int 8) 1 2048 8 =
      Descent True Example_TransientData 8 1 2048 8" by simp
  have v: "Block_Transform_GetWindowCtrl True 8 Example_TransientData 2048 44100 = Some 0x8C"
    unfolding Block_Transform_GetWindowCtrl_def Let_def d Example_Descent
    by (simp add: os mo)
  from s v have "\<exists>s. (0x8C :: int) = s + 0x8 + 0x10 * 8 \<and> 0 \<le> s \<and> 16 \<le> drop_bit (nat s) (256 :: nat)"
    by (intro exI [of _ s]) simp
  with v show ?thesis by simp
qed

subsection \<open>Claim C5\<close>

text \<open>
  C5, as stated: a decimation step is taken exactly when the largest ratio exceeds \<open>ln 2\<close>
  and lies in L or M, window switching is enabled and the sub-block size exceeds 64. The
  loop has one more condition, \<open>AnalysisLen > 1\<close>: the segment length halves with every
  step, so at most \<open>log2\<close> of the modulo steps are taken (three for a modulo of 8, which
  is what the 4-bit decimation code can hold). For a block of 2048 samples and a transient
  at the start of group L the loop takes three steps and leaves in its fourth pass, where
  the ratio 101 lies in L and exceeds \<open>ln 2\<close>, switching is enabled and the sub-block size
  is 256.
\<close>

theorem C5_depth_limit_counterexample:
  "length (Descent True Example_TransientData 8 1 2048 8) = 4 \<and>
   ln 2 < it_Ratio (Descent True Example_TransientData 8 1 2048 8 ! 3) \<and>
   it_RatioPos (Descent True Example_TransientData 8 1 2048 8 ! 3) = POS_L \<and>
   64 < it_SubBlockSize (Descent True Example_TransientData 8 1 2048 8 ! 3)"
  unfolding Example_Descent using ln2_less_101 by simp


text \<open>
  C5, amended: in every pass \<open>i\<close> of the search loop the pair (position, ratio) is the
  peak of the three segment log-ratios; a decimation step follows exactly when window
  switching is enabled, the segment length exceeds 1, the sub-block size exceeds 64, the
  peak does not lie in R and it exceeds the threshold \<open>ln 2\<close>; the step appends the bit
  0 for L and 1 for M to the decimation pattern, halves the sub-block size and the
  segment length, and for M moves the window by one segment group. Otherwise the loop
  leaves.
\<close>

theorem C5_descent_steps:
  assumes "its = Descent ws TD offs Dec SBS AL" "i < length its"
  shows "(it_RatioPos (its ! i), it_Ratio (its ! i)) =
           PeakRatio (SegmentRatios TD (it_Offset (its ! i)) (it_AnalysisLen (its ! i))) \<and>
      (Suc i < length its) =
           (ws \<and> 1 < it_AnalysisLen (its ! i) \<and> 64 < it_SubBlockSize (its ! i) \<and>
            it_RatioPos (its ! i) \<noteq> POS_R \<and> Log2_Threshold < it_Ratio (its ! i)) \<and>
      (Suc i < length its \<longrightarrow>
            it_Decimation (its ! Suc i) =
              2 * it_Decimation (its ! i) + (if it_RatioPos (its ! i) = POS_L then 0 else 1) \<and>
            it_SubBlockSize (its ! Suc i) = it_SubBlockSize (its ! i) div 2 \<and>
            it_AnalysisLen (its ! Suc i) = it_AnalysisLen (its ! i) div 2 \<and>
            it_Offset (its ! Suc i) =
              (if it_RatioPos (its ! i) = POS_L then it_Offset (its ! i)
               else it_Offset (its ! i) + int (it_AnalysisLen (its ! i))))"
proof -
  from assms(2) have "i < length (Descent ws TD offs Dec SBS AL)"
    unfolding assms(1) .
  from Descent_nth [OF this] show ?thesis
    unfolding Descent_Step_def assms(1) .
qed

theorem C5_descent_steps_witness:
  "(0::nat) < length (Descent True Example_TransientData 8 1 2048 8) \<and>
   Suc 0 < length (Descent True Example_TransientData 8 1 2048 8) \<and>
   it_Decimation (Descent True Example_TransientData 8 1 2048 8 ! Suc 0) = 2 \<and>
   it_SubBlockSize (Descent True Example_TransientData 8 1 2048 8 ! Suc 0) = 1024"
  using C5_descent_steps [OF refl, of 0 True Example_TransientData 8 1 2048 8]
  unfolding Example_Descent by simp

section \<open>Psychoacoustics: \<open>Block_Transform_CalculatePsychoacoustics\<close>\<close>

text \<open>
  The function walks the sub-blocks of the decimation pattern. For each one it finds
  the peak of the squared amplitudes, and unless the peak is zero it converts the
  amplitudes to two fixed-point tables (\<open>Energy\<close>, \<open>EnergyNp\<close>), slides a window over
  them with the running sums \<open>Sum\<close> and \<open>SumW\<close> (both \<open>uint64_t\<close>), and stores
  \<open>MaskingNp[n] = (Sum / SumW) * InvLogNorm + NormLog\<close> for every band \<open>n\<close>.

  \<open>#define PSYCHO_ULTRASTABLE ULC_USE_NOISE_CODING\<close>: the noise window is compiled in
  exactly when noise coding is; \<open>ULC_USE_NOISE_CODING\<close> is set outside these sources
  and is a parameter here.
\<close>

definition PSYCHO_ULTRASTABLE :: "bool \<Rightarrow> bool" where
  "PSYCHO_ULTRASTABLE ULC_USE_NOISE_CODING = ULC_USE_NOISE_CODING"

text \<open>
  The function divides \<open>2^32\<close> by the peak of the sub-block, and for a small peak the
  quotient is beyond the largest float. In this function the floats are therefore
  modelled with their infinities and NaN. A finite value is a real, and arithmetic on
  finite values is exact as long as the result stays in range; a result whose magnitude
  reaches \<open>2^128 - 2^103\<close>, half way between the largest float \<open>2^128 - 2^104\<close> and
  \<open>2^128\<close>, is an infinity, as round-to-nearest has it. Signed zeros and subnormal
  numbers are not modelled. The amplitudes in \<open>BufferAmp2\<close> are finite.
\<close>

datatype c_float = Finite real | PosInf | NegInf | NaN

definition c_float_of :: "real \<Rightarrow> c_float" where
  "c_float_of x =
     (if x \<ge> 2 ^ 128 - 2 ^ 103 then PosInf
      else if x \<le> - (2 ^ 128 - 2 ^ 103) then NegInf
      else Finite x)"

text \<open>Multiplication and addition: infinity times zero and the sum of opposite infinities are NaN.\<close>

fun fmul :: "c_float \<Rightarrow> c_float \<Rightarrow> c_float" where
  "fmul (Finite x) (Finite y) = c_float_of (x * y)"
| "fmul NaN b = NaN"
| "fmul a NaN = NaN"
| "fmul (Finite x) PosInf = (if x = 0 then NaN else if 0 < x then PosInf else NegInf)"
| "fmul (Finite x) NegInf = (if x = 0 then NaN else if 0 < x then NegInf else PosInf)"
| "fmul PosInf (Finite y) = (if y = 0 then NaN else if 0 < y then PosInf else NegInf)"
| "fmul NegInf (Finite y) = (if y = 0 then NaN else if 0 < y then NegInf else PosInf)"
| "fmul PosInf PosInf = PosInf"
| "fmul PosInf NegInf = NegInf"
| "fmul NegInf PosInf = NegInf"
| "fmul NegInf NegInf = PosInf"

fun fadd :: "c_float \<Rightarrow> c_float \<Rightarrow> c_float" where
  "fadd (Finite x) (Finite y) = c_float_of (x + y)"
| "fadd NaN b = NaN"
| "fadd a NaN = NaN"
| "fadd (Finite x) PosInf = PosInf"
| "fadd (Finite x) NegInf = NegInf"
| "fadd PosInf (Finite y) = PosInf"
| "fadd NegInf (Finite y) = NegInf"
| "fadd PosInf PosInf = PosInf"
| "fadd PosInf NegInf = NaN"
| "fadd NegInf PosInf = NaN"
| "fadd NegInf NegInf = NegInf"

text \<open>\<open>logf\<close> and \<open>sqrtf\<close>: NaN for a negative argument, \<open>logf(0)\<close> is minus infinity.\<close>

fun flog :: "c_float \<Rightarrow> c_float" where
  "flog (Finite x) = (if 0 < x then Finite (ln x) else if x = 0 then NegInf else NaN)"
| "flog PosInf = PosInf"
| "flog NegInf = NaN"
| "flog NaN = NaN"

fun fsqrt :: "c_float \<Rightarrow> c_float" where
  "fsqrt (Finite x) = (if 0 \<le> x then Finite (sqrt x) else NaN)"
| "fsqrt PosInf = PosInf"
| "fsqrt NegInf = NaN"
| "fsqrt NaN = NaN"

text \<open>The comparison \<open>a <= b\<close> (and \<open>b >= a\<close>): false when either side is NaN.\<close>

fun fle :: "c_float \<Rightarrow> c_float \<Rightarrow> bool" where
  "fle (Finite x) (Finite y) = (x \<le> y)"
| "fle NaN b = False"
| "fle a NaN = False"
| "fle NegInf b = True"
| "fle a PosInf = True"
| "fle PosInf b = False"
| "fle a NegInf = False"

text \<open>
  The conversion \<open>(uint32_t)v\<close> of a float truncates. For a NaN and for a value outside
  the range of \<open>uint32_t\<close> C leaves the behaviour undefined. The model takes the value
  that the code gcc and clang emit for x86-64 computes: the float is converted to a
  64-bit integer (\<open>cvttss2si\<close>) and the low 32 bits are kept, which is 0 for a NaN, for
  an infinity and for a value outside the 64-bit range.
\<close>

fun uint32_of_float :: "c_float \<Rightarrow> nat" where
  "uint32_of_float (Finite x) =
     (if - (2 ^ 63) \<le> c_trunc x \<and> c_trunc x < 2 ^ 63 then nat (c_trunc x mod 2 ^ 32) else 0)"
| "uint32_of_float PosInf = 0"
| "uint32_of_float NegInf = 0"
| "uint32_of_float NaN = 0"

text \<open>
  \<^verbatim>\<open>EnergyNp[n] = (v <= 1.0f) ? 0 : (uint32_t)(logf(v) * LogNorm);\<close>
\<close>

definition Psycho_EnergyNp :: "real \<Rightarrow> c_float \<Rightarrow> nat" where
  "Psycho_EnergyNp LogNorm v =
     (if fle v (Finite 1.0) then 0 else uint32_of_float (fmul (flog v) (Finite LogNorm)))"

text \<open>
  \<^verbatim>\<open>v = sqrtf(v) * 0x1.0p16f;
  Energy[n] = (v <= 1.0f) ? 1 : (v >= 0x1.0p32f) ? 0xFFFFFFFFu : (uint32_t)v;\<close>
  A NaN fails both comparisons and reaches the conversion.
\<close>

definition Psycho_Energy :: "c_float \<Rightarrow> nat" where
  "Psycho_Energy v =
     (let v = fmul (fsqrt v) (Finite (2 ^ 16))
      in if fle v (Finite 1.0) then 1
         else if fle (Finite (2 ^ 32)) v then 0xFFFFFFFF
         else uint32_of_float v)"

text \<open>
  The variables of the loop over the bands: the two window edges in .5 fixed point
  and the two 64-bit sums of the main window, the edges in .4 fixed point and the
  32-bit sum of the noise window.
\<close>

record Psycho_Vars =
  pv_BandBeg  :: nat
  pv_BandEnd  :: nat
  pv_Sum      :: nat
  pv_SumW     :: nat
  pv_NoiseBeg :: nat
  pv_NoiseEnd :: nat
  pv_NoiseSum :: nat

text \<open>
  Re-focusing the main window: both edges are advanced first (\<open>BandBeg += 29\<close>,
  \<open>BandEnd += 45\<close>), then at most one sample leaves at the lower edge and the samples
  between the old and the new upper edge, clipped to the sub-block, enter. The guarded
  \<open>do ... while(++Old < New)\<close> runs over \<open>Old, ..., New - 1\<close>. Subtraction and addition
  are those of \<open>uint64_t\<close>.
\<close>

definition Refocus_Main :: "(nat \<Rightarrow> nat) \<Rightarrow> (nat \<Rightarrow> nat) \<Rightarrow> nat \<Rightarrow> Psycho_Vars \<Rightarrow> Psycho_Vars" where
  "Refocus_Main Energy EnergyNp SubBlockSize v =
     (let RangeScaleFxp = 5; LoRangeScale = 29; HiRangeScale = 45;
          Old = drop_bit RangeScaleFxp (pv_BandBeg v);
          BandBeg = pv_BandBeg v + LoRangeScale;
          New = drop_bit RangeScaleFxp BandBeg;
          SumW = (if Old < New then (pv_SumW v + 2 ^ 64 - Energy Old) mod 2 ^ 64 else pv_SumW v);
          Sum  = (if Old < New
                  then (pv_Sum v + 2 ^ 64 - (Energy Old * EnergyNp Old) mod 2 ^ 64) mod 2 ^ 64
                  else pv_Sum v);
          Old = drop_bit RangeScaleFxp (pv_BandEnd v);
          BandEnd = pv_BandEnd v + HiRangeScale;
          New = drop_bit RangeScaleFxp BandEnd;
          New = (if New > SubBlockSize then SubBlockSize else New);
          SumW = fold (\<lambda>Old SumW. (SumW + Energy Old) mod 2 ^ 64) [Old..<New] SumW;
          Sum  = fold (\<lambda>Old Sum. (Sum + (Energy Old * EnergyNp Old) mod 2 ^ 64) mod 2 ^ 64) [Old..<New] Sum
      in v\<lparr>pv_BandBeg := BandBeg, pv_BandEnd := BandEnd, pv_Sum := Sum, pv_SumW := SumW\<rparr>)"

text \<open>
  Re-focusing the noise window: the same with scales 15/16 and 20/16, on a \<open>uint32_t\<close>
  sum of \<open>EnergyNp\<close>.
\<close>

definition Refocus_Noise :: "(nat \<Rightarrow> nat) \<Rightarrow> nat \<Rightarrow> Psycho_Vars \<Rightarrow> Psycho_Vars" where
  "Refocus_Noise EnergyNp SubBlockSize v =
     (let RangeScaleFxp = 4; LoRangeScale = 15; HiRangeScale = 20;
          Old = drop_bit RangeScaleFxp (pv_NoiseBeg v);
          NoiseBeg = pv_NoiseBeg v + LoRangeScale;
          New = drop_bit RangeScaleFxp NoiseBeg;
          NoiseSum = (if Old < New then (pv_NoiseSum v + 2 ^ 32 - EnergyNp Old) mod 2 ^ 32
                      else pv_NoiseSum v);
          Old = drop_bit RangeScaleFxp (pv_NoiseEnd v);
          NoiseEnd = pv_NoiseEnd v + HiRangeScale;
          New = drop_bit RangeScaleFxp NoiseEnd;
          New = (if New > SubBlockSize then SubBlockSize else New);
          NoiseSum = fold (\<lambda>Old NoiseSum. (NoiseSum + EnergyNp Old) mod 2 ^ 32) [Old..<New] NoiseSum
      in v\<lparr>pv_NoiseBeg := NoiseBeg, pv_NoiseEnd := NoiseEnd, pv_NoiseSum := NoiseSum\<rparr>)"

text \<open>
  The loop \<open>for(n=0;n<SubBlockSize;n++)\<close>. The result lists, band by band, the loop
  variables after the re-focus and the value stored in \<open>MaskingNp[n]\<close>; it is \<open>None\<close>
  when \<open>SumW\<close> is zero at the division \<open>Sum / SumW\<close>. \<open>x\<close> is a \<open>uint32_t\<close>,
  \<open>InvLogNorm\<close> is finite and \<open>NormLog\<close> a float.
\<close>

function Psycho_BandLoop ::
    "bool \<Rightarrow> (nat \<Rightarrow> nat) \<Rightarrow> (nat \<Rightarrow> nat) \<Rightarrow> nat \<Rightarrow> real \<Rightarrow> c_float \<Rightarrow> nat \<Rightarrow> Psycho_Vars \<Rightarrow>
     (Psycho_Vars \<times> c_float) list option" where
  "Psycho_BandLoop ultrastable Energy EnergyNp SubBlockSize InvLogNorm NormLog n v =
     (if n < SubBlockSize
      then (let v = Refocus_Main Energy EnergyNp SubBlockSize v;
                v = (if ultrastable then Refocus_Noise EnergyNp SubBlockSize v else v)
            in if pv_SumW v = 0 then None
               else (let x = (pv_Sum v div pv_SumW v) mod 2 ^ 32;
                         x = (if ultrastable
                              then (x + drop_bit (IntLog2 SubBlockSize) (pv_NoiseSum v)) mod 2 ^ 32
                              else x);
                         m = fadd (c_float_of (real x * InvLogNorm)) NormLog
                     in map_option ((#) (v, m))
                          (Psycho_BandLoop ultrastable Energy EnergyNp SubBlockSize InvLogNorm NormLog
                             (n + 1) v)))
      else Some [])"
  by pat_completeness auto
termination
  by (relation "measure (\<lambda>(u, E, Np, S, i, l, n, v). S - n)") auto

declare Psycho_BandLoop.simps [simp del]

text \<open>
  One sub-block: \<open>Skipped\<close> when the peak is zero (nothing is written), else the result
  of the band loop. \<open>0x1.03AF63p29f = 544599136\<close>, \<open>0x1.555555p-2f = 22369621 / 2^26\<close>
  and \<open>0x1.507D55p-31f = 22052181 / 2^55\<close>. \<open>Norm = 0x1.0p32f / Norm\<close> is the division
  that can overflow: the quotient is an infinity for a peak of \<open>2^-96\<close> or less.
\<close>

datatype SubBlock_Masking = Skipped | Masked "(Psycho_Vars \<times> c_float) list option"

definition Psycho_Peak :: "(nat \<Rightarrow> real) \<Rightarrow> nat \<Rightarrow> real" where
  "Psycho_Peak BufferAmp2 SubBlockSize =
     fold (\<lambda>n Norm. if BufferAmp2 n > Norm then BufferAmp2 n else Norm) [0..<SubBlockSize] 0.0"

definition Psycho_SubBlock :: "bool \<Rightarrow> (nat \<Rightarrow> real) \<Rightarrow> nat \<Rightarrow> SubBlock_Masking" where
  "Psycho_SubBlock ultrastable BufferAmp2 SubBlockSize =
     (let Norm = Psycho_Peak BufferAmp2 SubBlockSize
      in if Norm \<noteq> 0.0
         then (let Norm = c_float_of (2 ^ 32 / Norm);
                   LogNorm = 544599136 / real SubBlockSize;
                   EnergyNp = (\<lambda>n. Psycho_EnergyNp LogNorm (fmul (Finite (BufferAmp2 n)) Norm));
                   Energy = (\<lambda>n. Psycho_Energy (fmul (Finite (BufferAmp2 n)) Norm));
                   NormLog = fmul (Finite (22369621 / 67108864)) (flog Norm);
                   InvLogNorm = real SubBlockSize * - (22052181 / 36028797018963968)
               in Masked (Psycho_BandLoop ultrastable Energy EnergyNp SubBlockSize InvLogNorm NormLog 0
                            \<lparr>pv_BandBeg = 0, pv_BandEnd = 0, pv_Sum = 0, pv_SumW = 0,
                             pv_NoiseBeg = 0, pv_NoiseEnd = 0, pv_NoiseSum = 0\<rparr>))
         else Skipped)"

text \<open>
  The whole function. \<open>BufferAmp2\<close> and \<open>MaskingNp\<close> advance by the sub-block size
  after every sub-block, so a sub-block at offset \<open>o\<close> reads \<open>BufferAmp2[o + n]\<close> and
  writes \<open>MaskingNp[o + n]\<close>. The result maps every index that was written to the value
  written there; the error values are the out-of-bounds read of the pattern table
  and the division by zero.
\<close>

datatype Psycho_Error = PatternIndexOutOfRange | DivisionByZero

fun Psycho_SubBlocks ::
    "bool \<Rightarrow> (nat \<Rightarrow> real) \<Rightarrow> SubBlock list \<Rightarrow> (nat \<rightharpoonup> c_float) \<Rightarrow> Psycho_Error + (nat \<rightharpoonup> c_float)" where
  "Psycho_SubBlocks ultrastable BufferAmp2 [] MaskingNp = Inr MaskingNp"
| "Psycho_SubBlocks ultrastable BufferAmp2 (b # bs) MaskingNp =
     (case Psycho_SubBlock ultrastable (\<lambda>n. BufferAmp2 (sb_Offs b + n)) (sb_Size b) of
        Skipped \<Rightarrow> Psycho_SubBlocks ultrastable BufferAmp2 bs MaskingNp
      | Masked None \<Rightarrow> Inl DivisionByZero
      | Masked (Some tr) \<Rightarrow>
          Psycho_SubBlocks ultrastable BufferAmp2 bs
            (\<lambda>i. if sb_Offs b \<le> i \<and> i < sb_Offs b + length tr
                  then Some (snd (tr ! (i - sb_Offs b))) else MaskingNp i))"

definition Block_Transform_CalculatePsychoacoustics ::
    "bool \<Rightarrow> (nat \<Rightarrow> real) \<Rightarrow> nat \<Rightarrow> int \<Rightarrow> Psycho_Error + (nat \<rightharpoonup> c_float)" where
  "Block_Transform_CalculatePsychoacoustics ULC_USE_NOISE_CODING BufferAmp2 BlockSize WindowCtrl =
     (case ULC_SubBlockDecimationPattern WindowCtrl of
        None \<Rightarrow> Inl PatternIndexOutOfRange
      | Some DecimationPattern \<Rightarrow>
          Psycho_SubBlocks (PSYCHO_ULTRASTABLE ULC_USE_NOISE_CODING) BufferAmp2
            (SubBlockWalk BlockSize 0 DecimationPattern) Map.empty)"

subsection \<open>The sliding window\<close>

text \<open>
  The contents of \<open>Energy[]\<close> after the conversion loop of a sub-block with a non-zero
  peak.
\<close>

definition Psycho_EnergyBuffer :: "(nat \<Rightarrow> real) \<Rightarrow> nat \<Rightarrow> nat \<Rightarrow> nat" where
  "Psycho_EnergyBuffer BufferAmp2 SubBlockSize n =
     Psycho_Energy (fmul (Finite (BufferAmp2 n))
                           (c_float_of (2 ^ 32 / Psycho_Peak BufferAmp2 SubBlockSize)))"

text \<open>
  The window of the main sum once the edges have been advanced \<open>m\<close> times, and the
  invariant of the band loop: after \<open>m\<close> passes \<open>SumW\<close> is the plain sum of \<open>Energy\<close>
  over that window (the 64-bit arithmetic never wraps).
\<close>

definition Window_Lo :: "nat \<Rightarrow> nat" where
  "Window_Lo m = 29 * m div 32"

definition Window_Hi :: "nat \<Rightarrow> nat \<Rightarrow> nat" where
  "Window_Hi S m = min (45 * m div 32) S"

definition Main_Inv :: "(nat \<Rightarrow> nat) \<Rightarrow> nat \<Rightarrow> nat \<Rightarrow> Psycho_Vars \<Rightarrow> bool" where
  "Main_Inv Energy S m v \<longleftrightarrow>
     pv_BandBeg v = 29 * m \<and> pv_BandEnd v = 45 * m \<and>
     pv_SumW v = sum Energy {Window_Lo m..<Window_Hi S m}"

text \<open>
  The two re-focusing steps of one pass.
\<close>

definition Refocus :: "bool \<Rightarrow> (nat \<Rightarrow> nat) \<Rightarrow> (nat \<Rightarrow> nat) \<Rightarrow> nat \<Rightarrow> Psycho_Vars \<Rightarrow> Psycho_Vars" where
  "Refocus u E Np S v =
     (let v = Refocus_Main E Np S v in if u then Refocus_Noise Np S v else v)"

lemma fold_add_mod:
  fixes f :: "nat \<Rightarrow> nat"
  assumes "a \<le> b" "w + sum f {a..<b} < M"
  shows "fold (\<lambda>i s. (s + f i) mod M) [a..<b] w = w + sum f {a..<b}"
  using assms
proof (induction b)
  case 0
  then show ?case by simp
next
  case (Suc b)
  show ?case
  proof (cases "a = Suc b")
    case True
    then show ?thesis by simp
  next
    case False
    with Suc.prems have le: "a \<le> b" by simp
    have split: "sum f {a..<Suc b} = sum f {a..<b} + f b"
      using le by simp
    with Suc.prems have "w + sum f {a..<b} < M" by simp
    from Suc.IH [OF le this] split Suc.prems(2) le show ?thesis by simp
  qed
qed

text \<open>
  The clamp of \<open>Energy\<close> works for every amplitude that is not negative and not a NaN;
  a NaN is stored as 0.
\<close>

lemma Psycho_Energy_range:
  assumes "v = PosInf \<or> (\<exists>x. v = Finite x \<and> 0 \<le> x)"
  shows "1 \<le> Psycho_Energy v \<and> Psycho_Energy v < 2 ^ 32"
  using assms
proof
  assume "v = PosInf"
  then show ?thesis by (simp add: Psycho_Energy_def Let_def)
next
  assume "\<exists>x. v = Finite x \<and> 0 \<le> x"
  then obtain x where v: "v = Finite x" and x: "0 \<le> x" by blast
  define w where "w = sqrt x * 2 ^ 16"
  define k where "k = \<lfloor>w\<rfloor>"
  have w0: "0 \<le> w" using x by (simp add: w_def)
  have E: "Psycho_Energy v =
      (if fle (c_float_of w) (Finite 1) then 1
       else if fle (Finite (2 ^ 32)) (c_float_of w) then 0xFFFFFFFF
       else uint32_of_float (c_float_of w))"
    using x by (simp add: Psycho_Energy_def Let_def v w_def)
  show ?thesis
  proof (cases "w \<ge> 2 ^ 128 - 2 ^ 103")
    case True
    then have "c_float_of w = PosInf" by (simp add: c_float_of_def)
    then show ?thesis by (simp add: E)
  next
    case fin: False
    with w0 have cf: "c_float_of w = Finite w" by (simp add: c_float_of_def)
    have unfold: "Psycho_Energy v =
        (if w \<le> 1 then 1 else if 2 ^ 32 \<le> w then 0xFFFFFFFF else uint32_of_float (Finite w))"
      by (simp add: E cf)
    show ?thesis
    proof (cases "w \<le> 1")
      case True
      then show ?thesis by (simp add: unfold)
    next
      case low: False
      show ?thesis
      proof (cases "w \<ge> 2 ^ 32")
        case True
        with low show ?thesis by (simp add: unfold)
      next
        case False
        from low have k1: "1 \<le> k" unfolding k_def by linarith
        from False have "w < 2 ^ 32" by simp
        then have k2: "k < 2 ^ 32" unfolding k_def by (simp add: floor_less_iff)
        from k1 k2 have n: "1 \<le> nat k" "nat k < 2 ^ 32" by simp_all
        from k1 k2 have r: "- (2 ^ 63) \<le> k" "k < 2 ^ 63" "k mod 2 ^ 32 = k" by simp_all
        have "c_trunc w = k" using w0 by (simp add: c_trunc_def k_def)
        with r have "uint32_of_float (Finite w) = nat k" by simp
        with low False n show ?thesis by (simp add: unfold)
      qed
    qed
  qed
qed

lemma Psycho_Energy_NaN: "Psycho_Energy NaN = 0"
  by (simp add: Psycho_Energy_def Let_def)

lemma Psycho_Peak_Suc:
  "Psycho_Peak A (Suc S) = (if A S > Psycho_Peak A S then A S else Psycho_Peak A S)"
  by (simp add: Psycho_Peak_def)

lemma Psycho_Peak_nonneg: "0 \<le> Psycho_Peak A S"
proof (induction S)
  case 0
  then show ?case by (simp add: Psycho_Peak_def)
next
  case (Suc S)
  then show ?case by (simp add: Psycho_Peak_Suc)
qed

text \<open>
  With amplitudes that are not negative and a peak whose quotient \<open>2^32 / peak\<close> stays
  finite, every \<open>Energy\<close> entry is at least 1.
\<close>

lemma Psycho_EnergyBuffer_range:
  assumes "0 \<le> A n" "Psycho_Peak A S \<noteq> 0" "2 ^ 32 / Psycho_Peak A S < 2 ^ 128 - 2 ^ 103"
  shows "1 \<le> Psycho_EnergyBuffer A S n \<and> Psycho_EnergyBuffer A S n < 2 ^ 32"
proof -
  define r where "r = 2 ^ 32 / Psycho_Peak A S"
  from Psycho_Peak_nonneg [of A S] assms(2) have "0 < Psycho_Peak A S" by simp
  then have r0: "0 < r" by (simp add: r_def)
  have lt: "r < 2 ^ 128 - 2 ^ 103" using assms(3) by (simp add: r_def)
  from r0 lt have cf: "c_float_of r = Finite r" by (simp add: c_float_of_def)
  from assms(1) r0 have nn: "0 \<le> A n * r" by simp
  then have "c_float_of (A n * r) = PosInf \<or> c_float_of (A n * r) = Finite (A n * r)"
    by (simp add: c_float_of_def)
  with nn have "c_float_of (A n * r) = PosInf \<or> (\<exists>x. c_float_of (A n * r) = Finite x \<and> 0 \<le> x)"
    by blast
  from Psycho_Energy_range [OF this]
  have "1 \<le> Psycho_Energy (c_float_of (A n * r)) \<and> Psycho_Energy (c_float_of (A n * r)) < 2 ^ 32" .
  moreover have "Psycho_EnergyBuffer A S n = Psycho_Energy (fmul (Finite (A n)) (c_float_of r))"
    by (simp add: Psycho_EnergyBuffer_def r_def)
  moreover have "fmul (Finite (A n)) (c_float_of r) = c_float_of (A n * r)"
    by (simp add: cf)
  ultimately show ?thesis by simp
qed

lemma sum_bounded_window:
  fixes f :: "nat \<Rightarrow> nat"
  assumes "\<And>i. f i < 2 ^ 32" "b \<le> S" "S \<le> 2 ^ 31"
  shows "sum f {a..<b} < 2 ^ 64"
proof -
  have "sum f {a..<b} \<le> (\<Sum>i\<in>{a..<b}. 2 ^ 32)"
    by (rule sum_mono) (rule less_imp_le [OF assms(1)])
  also have "\<dots> = (b - a) * 2 ^ 32" by simp
  also have "\<dots> \<le> 2 ^ 31 * 2 ^ 32"
  proof (rule mult_right_mono)
    from assms(2,3) show "b - a \<le> 2 ^ 31" by linarith
  qed simp
  also have "\<dots> < (2::nat) ^ 64" by simp
  finally show ?thesis .
qed


lemma Window_nonempty:
  assumes "1 \<le> m" "m \<le> S"
  shows "Window_Lo m < Window_Hi S m"
proof -
  from assms(1) have "29 * m < m * 32" by simp
  then have lo: "29 * m div 32 < m" by (simp add: div_less_iff_less_mult)
  have "m * 32 \<le> 45 * m" by simp
  then have hi: "m \<le> 45 * m div 32" by (simp add: less_eq_div_iff_mult_less_eq)
  from lo hi assms(2) show ?thesis
    unfolding Window_Lo_def Window_Hi_def by simp
qed

lemma Window_Lo_step: "Window_Lo (Suc m) = Window_Lo m \<or> Window_Lo (Suc m) = Suc (Window_Lo m)"
proof -
  have "29 * m div 32 \<le> (29 * m + 29) div 32"
    by (rule div_le_mono) simp
  moreover have "(29 * m + 29) div 32 \<le> (29 * m + 32) div 32"
    by (rule div_le_mono) simp
  moreover have "(29 * m + 32) div 32 = Suc (29 * m div 32)" by simp
  ultimately show ?thesis
    unfolding Window_Lo_def by (simp only: mult_Suc_right add.commute [of 29]) linarith
qed

lemma Window_Hi_mono: "Window_Hi S m \<le> Window_Hi S (Suc m)"
proof -
  have "45 * m div 32 \<le> 45 * Suc m div 32"
    by (rule div_le_mono) simp
  then show ?thesis
    unfolding Window_Hi_def by (rule min.mono) simp
qed

lemma Window_Lo_0: "Window_Lo 0 = 0" "Window_Lo (Suc 0) = 0" "Window_Hi S 0 = 0"
  by (simp_all add: Window_Lo_def Window_Hi_def)



lemma Refocus_Main_SumW:
  assumes inv: "Main_Inv E S n v" and n: "n < S" and S: "S \<le> 2 ^ 31"
    and E: "\<And>i. E i < 2 ^ 32"
  shows "Main_Inv E S (Suc n) (Refocus_Main E Np S v)"
proof -
  let ?lo = "Window_Lo n" and ?lo' = "Window_Lo (Suc n)"
  let ?hi = "Window_Hi S n" and ?hi' = "Window_Hi S (Suc n)"
  let ?W = "sum E {?lo..<?hi}"
  from inv have beg: "pv_BandBeg v = 29 * n" and en: "pv_BandEnd v = 45 * n"
    and W: "pv_SumW v = ?W" by (simp_all add: Main_Inv_def)
  have hiS: "?hi \<le> S" "?hi' \<le> S" by (simp_all add: Window_Hi_def)
  have bound: "sum E {a..<b} < 2 ^ 64" if "b \<le> S" for a b
    using E that S by (rule sum_bounded_window)
  define W1 where "W1 = (if ?lo < ?lo' then (?W + 2 ^ 64 - E ?lo) mod 2 ^ 64 else ?W)"
  have lo_le: "?lo' \<le> ?hi"
  proof (cases "n = 0")
    case True
    then show ?thesis by (simp add: Window_Lo_0)
  next
    case False
    then have "?lo < ?hi" using n by (intro Window_nonempty) simp_all
    with Window_Lo_step [of n] show ?thesis by auto
  qed
  have W1: "W1 = sum E {?lo'..<?hi}"
  proof (cases "?lo < ?lo'")
    case True
    with Window_Lo_step [of n] have step: "?lo' = Suc ?lo" by simp
    with lo_le have lt: "?lo < ?hi" by simp
    then have split: "?W = E ?lo + sum E {Suc ?lo..<?hi}"
      by (simp add: sum.atLeast_Suc_lessThan)
    have "?W < 2 ^ 64" by (rule bound) (rule hiS)
    with split have "(?W + 2 ^ 64 - E ?lo) mod 2 ^ 64 = sum E {Suc ?lo..<?hi}"
      by simp
    with True step show ?thesis by (simp add: W1_def)
  next
    case False
    with Window_Lo_step [of n] have "?lo' = ?lo" by auto
    with False show ?thesis by (simp add: W1_def)
  qed
  define Old where "Old = 45 * n div 32"
  have add: "fold (\<lambda>i s. (s + E i) mod 2 ^ 64) [Old..<?hi'] W1 = sum E {?lo'..<?hi'}"
  proof (cases "Old \<le> S")
    case True
    then have old: "Old = ?hi" by (simp add: Old_def Window_Hi_def)
    have le: "?hi \<le> ?hi'" by (rule Window_Hi_mono)
    have join: "sum E {?lo'..<?hi} + sum E {?hi..<?hi'} = sum E {?lo'..<?hi'}"
      using lo_le le by (rule sum.atLeastLessThan_concat)
    have "W1 + sum E {?hi..<?hi'} < 2 ^ 64"
      unfolding W1 join by (rule bound) (rule hiS)
    from fold_add_mod [OF le this] show ?thesis
      unfolding old W1 join .
  next
    case False
    then have "?hi = S" "?hi' = S" "S < Old"
      by (simp_all add: Old_def Window_Hi_def)
    then show ?thesis by (simp add: W1)
  qed
  have lo': "(29 * n + 29) div 32 = ?lo'" and hi': "min ((45 * n + 45) div 32) S = ?hi'"
    by (simp_all add: Window_Lo_def Window_Hi_def add.commute)
  have "pv_SumW (Refocus_Main E Np S v) =
      fold (\<lambda>i s. (s + E i) mod 2 ^ 64) [45 * n div 32..<min ((45 * n + 45) div 32) S]
        (if 29 * n div 32 < (29 * n + 29) div 32
         then (?W + 2 ^ 64 - E (29 * n div 32)) mod 2 ^ 64 else ?W)"
    by (simp add: Refocus_Main_def Let_def drop_bit_eq_div beg en W min_def)
  also have "\<dots> = fold (\<lambda>i s. (s + E i) mod 2 ^ 64) [Old..<?hi'] W1"
    unfolding lo' hi' W1_def Old_def Window_Lo_def [of n, symmetric] ..
  finally have "pv_SumW (Refocus_Main E Np S v) = sum E {?lo'..<?hi'}"
    using add by simp
  moreover have "pv_BandBeg (Refocus_Main E Np S v) = 29 * Suc n"
    "pv_BandEnd (Refocus_Main E Np S v) = 45 * Suc n"
    by (simp_all add: Refocus_Main_def Let_def beg en)
  ultimately show ?thesis by (simp add: Main_Inv_def)
qed

lemma Refocus_Noise_Main_Inv:
  "Main_Inv E S m (Refocus_Noise Np S v) = Main_Inv E S m v"
  by (simp add: Main_Inv_def Refocus_Noise_def Let_def)

lemma Main_Inv_positive:
  assumes "Main_Inv E S (Suc n) v" "n < S" "\<And>i. 1 \<le> E i"
  shows "0 < pv_SumW v"
proof -
  from assms(2) have ne: "Window_Lo (Suc n) < Window_Hi S (Suc n)"
    by (intro Window_nonempty) simp_all
  then have "Window_Lo (Suc n) \<in> {Window_Lo (Suc n)..<Window_Hi S (Suc n)}" by simp
  then have "E (Window_Lo (Suc n)) \<le> sum E {Window_Lo (Suc n)..<Window_Hi S (Suc n)}"
    by (intro member_le_sum) simp_all
  with assms(3) [of "Window_Lo (Suc n)"] assms(1) show ?thesis
    by (simp add: Main_Inv_def)
qed


lemma Psycho_BandLoop_unfold:
  "Psycho_BandLoop u E Np S il nl n v =
     (if n < S
      then (if pv_SumW (Refocus u E Np S v) = 0 then None
            else map_option
                   ((#) (Refocus u E Np S v,
                         fadd (c_float_of
                                 (real (if u
                                        then (pv_Sum (Refocus u E Np S v) div pv_SumW (Refocus u E Np S v) mod 2 ^ 32 +
                                              drop_bit (IntLog2 S) (pv_NoiseSum (Refocus u E Np S v))) mod 2 ^ 32
                                        else pv_Sum (Refocus u E Np S v) div pv_SumW (Refocus u E Np S v) mod 2 ^ 32) *
                                  il))
                              nl))
                   (Psycho_BandLoop u E Np S il nl (Suc n) (Refocus u E Np S v)))
      else Some [])"
  by (subst Psycho_BandLoop.simps) (simp add: Let_def Refocus_def)

lemma Refocus_Main_Inv:
  assumes "Main_Inv E S n v" "n < S" "S \<le> 2 ^ 31" "\<And>i. E i < 2 ^ 32"
  shows "Main_Inv E S (Suc n) (Refocus u E Np S v)"
  using Refocus_Main_SumW [OF assms, of Np]
  by (simp add: Refocus_def Let_def Refocus_Noise_Main_Inv)

lemma Psycho_BandLoop_result:
  assumes S: "S \<le> 2 ^ 31" and E: "\<And>i. 1 \<le> E i \<and> E i < 2 ^ 32"
  shows "Main_Inv E S n v \<Longrightarrow> n \<le> S \<Longrightarrow>
         \<exists>tr. Psycho_BandLoop u E Np S il nl n v = Some tr \<and> length tr = S - n \<and>
              (\<forall>k < S - n. Main_Inv E S (Suc (n + k)) (fst (tr ! k)) \<and> 0 < pv_SumW (fst (tr ! k)))"
proof (induction d \<equiv> "S - n" arbitrary: n v rule: less_induct)
  case less
  show ?case
  proof (cases "n < S")
    case False
    then show ?thesis
      by (subst Psycho_BandLoop_unfold) simp
  next
    case True
    let ?v = "Refocus u E Np S v"
    have E1: "\<And>i. 1 \<le> E i" and E2: "\<And>i. E i < 2 ^ 32" using E by simp_all
    have inv: "Main_Inv E S (Suc n) ?v"
      using less.prems(1) True S E2 by (rule Refocus_Main_Inv)
    have pos: "0 < pv_SumW ?v"
      using inv True E1 by (rule Main_Inv_positive)
    from True have "S - Suc n < S - n" "Suc n \<le> S" by simp_all
    from less.hyps [OF this(1) inv this(2)]
    obtain tr :: "(Psycho_Vars \<times> c_float) list"
      where tr: "Psycho_BandLoop u E Np S il nl (Suc n) ?v = Some tr"
        and len: "length tr = S - Suc n"
        and each: "\<And>k. k < S - Suc n \<Longrightarrow>
              Main_Inv E S (Suc (Suc n + k)) (fst (tr ! k)) \<and> 0 < pv_SumW (fst (tr ! k))"
      by blast
    have "\<exists>m. Psycho_BandLoop u E Np S il nl n v = Some ((?v, m) # tr)"
      using True pos tr by (subst Psycho_BandLoop_unfold) simp
    then obtain m :: c_float where run: "Psycho_BandLoop u E Np S il nl n v = Some ((?v, m) # tr)" ..
    have "Main_Inv E S (Suc (n + k)) (fst (((?v, m) # tr) ! k)) \<and>
          0 < pv_SumW (fst (((?v, m) # tr) ! k))" if "k < S - n" for k
    proof (cases k)
      case 0
      with inv pos show ?thesis by simp
    next
      case (Suc j)
      with that have "j < S - Suc n" by simp
      from each [OF this] Suc show ?thesis by simp
    qed
    moreover have "length ((?v, m) # tr) = S - n" using len True by simp
    ultimately show ?thesis using run by simp
  qed
qed

lemma Psycho_SubBlock_skipped:
  "Psycho_Peak A S = 0 \<Longrightarrow> Psycho_SubBlock u A S = Skipped"
  by (simp add: Psycho_SubBlock_def Let_def)

lemma Psycho_SubBlock_unfold:
  assumes "Psycho_Peak A S \<noteq> 0"
  shows "\<exists>Np il nl. Psycho_SubBlock u A S =
           Masked (Psycho_BandLoop u (Psycho_EnergyBuffer A S) Np S il nl 0
                     \<lparr>pv_BandBeg = 0, pv_BandEnd = 0, pv_Sum = 0, pv_SumW = 0,
                      pv_NoiseBeg = 0, pv_NoiseEnd = 0, pv_NoiseSum = 0\<rparr>)"
proof -
  let ?Np = "\<lambda>n. Psycho_EnergyNp (544599136 / real S)
                     (fmul (Finite (A n)) (c_float_of (2 ^ 32 / Psycho_Peak A S)))"
  let ?il = "real S * - (22052181 / 36028797018963968)"
  let ?nl = "fmul (Finite (22369621 / 67108864)) (flog (c_float_of (2 ^ 32 / Psycho_Peak A S)))"
  have "Psycho_SubBlock u A S =
           Masked (Psycho_BandLoop u (Psycho_EnergyBuffer A S) ?Np S ?il ?nl 0
                     \<lparr>pv_BandBeg = 0, pv_BandEnd = 0, pv_Sum = 0, pv_SumW = 0,
                      pv_NoiseBeg = 0, pv_NoiseEnd = 0, pv_NoiseSum = 0\<rparr>)"
    using assms unfolding Psycho_SubBlock_def Let_def Psycho_EnergyBuffer_def by simp
  then show ?thesis by blast
qed

lemma Psycho_SubBlock_result:
  assumes peak: "Psycho_Peak A S \<noteq> 0" and S: "S \<le> 2 ^ 31"
    and amp: "\<And>n. 0 \<le> A n" and fin: "2 ^ 32 / Psycho_Peak A S < 2 ^ 128 - 2 ^ 103"
  shows "\<exists>tr. Psycho_SubBlock u A S = Masked (Some tr) \<and> length tr = S \<and>
           (\<forall>n < S. 1 \<le> Psycho_EnergyBuffer A S n \<and>
                pv_BandBeg (fst (tr ! n)) = 29 * Suc n \<and>
                pv_BandEnd (fst (tr ! n)) = 45 * Suc n \<and>
                29 * Suc n div 32 < min (45 * Suc n div 32) S \<and>
                pv_SumW (fst (tr ! n)) =
                  sum (Psycho_EnergyBuffer A S) {29 * Suc n div 32..<min (45 * Suc n div 32) S} \<and>
                0 < pv_SumW (fst (tr ! n)))"
proof -
  let ?E = "Psycho_EnergyBuffer A S"
  let ?init = "\<lparr>pv_BandBeg = 0, pv_BandEnd = 0, pv_Sum = 0, pv_SumW = 0,
                pv_NoiseBeg = 0, pv_NoiseEnd = 0, pv_NoiseSum = 0\<rparr>"
  from Psycho_SubBlock_unfold [OF peak, of u]
  obtain Np il nl where unfold: "Psycho_SubBlock u A S = Masked (Psycho_BandLoop u ?E Np S il nl 0 ?init)"
    by blast
  have E: "\<And>i. 1 \<le> ?E i \<and> ?E i < 2 ^ 32"
    using amp peak fin by (rule Psycho_EnergyBuffer_range)
  have init: "Main_Inv ?E S 0 ?init"
    by (simp add: Main_Inv_def Window_Lo_0)
  from Psycho_BandLoop_result [OF S E init, of u Np il nl]
  obtain tr :: "(Psycho_Vars \<times> c_float) list"
    where run: "Psycho_BandLoop u ?E Np S il nl 0 ?init = Some tr"
      and len: "length tr = S"
      and each: "\<And>k. k < S \<Longrightarrow> Main_Inv ?E S (Suc k) (fst (tr ! k)) \<and> 0 < pv_SumW (fst (tr ! k))"
    by auto
  have band: "1 \<le> ?E n \<and>
       pv_BandBeg (fst (tr ! n)) = 29 * Suc n \<and>
       pv_BandEnd (fst (tr ! n)) = 45 * Suc n \<and>
       29 * Suc n div 32 < min (45 * Suc n div 32) S \<and>
       pv_SumW (fst (tr ! n)) = sum ?E {29 * Suc n div 32..<min (45 * Suc n div 32) S} \<and>
       0 < pv_SumW (fst (tr ! n))" if "n < S" for n
  proof (intro conjI)
    show "1 \<le> ?E n" using E [of n] ..
    from each [OF that] show "pv_BandBeg (fst (tr ! n)) = 29 * Suc n"
      unfolding Main_Inv_def by (elim conjE)
    from each [OF that] show "pv_BandEnd (fst (tr ! n)) = 45 * Suc n"
      unfolding Main_Inv_def by (elim conjE)
    from that have "Window_Lo (Suc n) < Window_Hi S (Suc n)"
      by (intro Window_nonempty) simp_all
    then show "29 * Suc n div 32 < min (45 * Suc n div 32) S"
      unfolding Window_Lo_def Window_Hi_def .
    from each [OF that] have "pv_SumW (fst (tr ! n)) = sum ?E {Window_Lo (Suc n)..<Window_Hi S (Suc n)}"
      unfolding Main_Inv_def by (elim conjE)
    then show "pv_SumW (fst (tr ! n)) = sum ?E {29 * Suc n div 32..<min (45 * Suc n div 32) S}"
      unfolding Window_Lo_def Window_Hi_def .
    from each [OF that] show "0 < pv_SumW (fst (tr ! n))" ..
  qed
  have masked: "Psycho_SubBlock u A S = Masked (Some tr)"
    unfolding unfold run ..
  from band have "\<forall>n < S. 1 \<le> ?E n \<and>
       pv_BandBeg (fst (tr ! n)) = 29 * Suc n \<and>
       pv_BandEnd (fst (tr ! n)) = 45 * Suc n \<and>
       29 * Suc n div 32 < min (45 * Suc n div 32) S \<and>
       pv_SumW (fst (tr ! n)) = sum ?E {29 * Suc n div 32..<min (45 * Suc n div 32) S} \<and>
       0 < pv_SumW (fst (tr ! n))"
    by (intro allI impI)
  with masked len show ?thesis
    by (intro exI [of _ tr] conjI)
qed

lemma Psycho_SubBlocks_result:
  assumes "\<forall>b \<in> set bs. sb_Size b \<le> 2 ^ 31" and "\<And>n. 0 \<le> A n"
    and "\<forall>b \<in> set bs. Psycho_Peak (\<lambda>n. A (sb_Offs b + n)) (sb_Size b) \<noteq> 0 \<longrightarrow>
            2 ^ 32 / Psycho_Peak (\<lambda>n. A (sb_Offs b + n)) (sb_Size b) < 2 ^ 128 - 2 ^ 103"
  shows "\<exists>M'. Psycho_SubBlocks u A bs M = Inr M' \<and>
           (\<forall>i. M i \<noteq> None \<longrightarrow> M' i \<noteq> None) \<and>
           (\<forall>b \<in> set bs. Psycho_Peak (\<lambda>n. A (sb_Offs b + n)) (sb_Size b) \<noteq> 0 \<longrightarrow>
                (\<forall>n < sb_Size b. M' (sb_Offs b + n) \<noteq> None))"
  using assms(1,3)
proof (induction bs arbitrary: M)
  case Nil
  then show ?case by simp
next
  case (Cons b bs)
  let ?A = "\<lambda>n. A (sb_Offs b + n)"
  from Cons.prems have sz: "sb_Size b \<le> 2 ^ 31" and rest: "\<forall>b \<in> set bs. sb_Size b \<le> 2 ^ 31"
    and fin: "Psycho_Peak ?A (sb_Size b) \<noteq> 0 \<longrightarrow>
            2 ^ 32 / Psycho_Peak ?A (sb_Size b) < 2 ^ 128 - 2 ^ 103"
    and fins: "\<forall>b \<in> set bs. Psycho_Peak (\<lambda>n. A (sb_Offs b + n)) (sb_Size b) \<noteq> 0 \<longrightarrow>
            2 ^ 32 / Psycho_Peak (\<lambda>n. A (sb_Offs b + n)) (sb_Size b) < 2 ^ 128 - 2 ^ 103"
    by simp_all
  show ?case
  proof (cases "Psycho_Peak ?A (sb_Size b) = 0")
    case True
    from Cons.IH [OF rest fins, of M] obtain M' where
      run: "Psycho_SubBlocks u A bs M = Inr M'"
      and keep: "\<forall>i. M i \<noteq> None \<longrightarrow> M' i \<noteq> None"
      and wr: "\<forall>c \<in> set bs. Psycho_Peak (\<lambda>n. A (sb_Offs c + n)) (sb_Size c) \<noteq> 0 \<longrightarrow>
                (\<forall>n < sb_Size c. M' (sb_Offs c + n) \<noteq> None)"
      by blast
    have "Psycho_SubBlocks u A (b # bs) M = Inr M'"
      using run by (simp add: Psycho_SubBlock_skipped [OF True])
    moreover from wr True
    have "\<forall>c \<in> set (b # bs). Psycho_Peak (\<lambda>n. A (sb_Offs c + n)) (sb_Size c) \<noteq> 0 \<longrightarrow>
                (\<forall>n < sb_Size c. M' (sb_Offs c + n) \<noteq> None)"
      by simp
    ultimately show ?thesis using keep by (intro exI [of _ M'] conjI)
  next
    case False
    from fin False have fin': "2 ^ 32 / Psycho_Peak ?A (sb_Size b) < 2 ^ 128 - 2 ^ 103" by simp
    have amp: "\<And>n. 0 \<le> ?A n" by (rule assms(2))
    from Psycho_SubBlock_result [OF False sz amp fin', of u]
    obtain tr :: "(Psycho_Vars \<times> c_float) list"
      where tr: "Psycho_SubBlock u ?A (sb_Size b) = Masked (Some tr)" and len: "length tr = sb_Size b"
      by blast
    let ?M1 = "\<lambda>i. if sb_Offs b \<le> i \<and> i < sb_Offs b + length tr
                    then Some (snd (tr ! (i - sb_Offs b))) else M i"
    from Cons.IH [OF rest fins, of ?M1] obtain M' where
      run: "Psycho_SubBlocks u A bs ?M1 = Inr M'"
      and keep: "\<forall>i. ?M1 i \<noteq> None \<longrightarrow> M' i \<noteq> None"
      and wr: "\<forall>c \<in> set bs. Psycho_Peak (\<lambda>n. A (sb_Offs c + n)) (sb_Size c) \<noteq> 0 \<longrightarrow>
                (\<forall>n < sb_Size c. M' (sb_Offs c + n) \<noteq> None)"
      by blast
    have call: "Psycho_SubBlocks u A (b # bs) M = Inr M'"
      using run by (simp add: tr)
    have keep': "\<forall>i. M i \<noteq> None \<longrightarrow> M' i \<noteq> None"
    proof (intro allI impI)
      fix i assume "M i \<noteq> None"
      then have "?M1 i \<noteq> None" by simp
      with keep show "M' i \<noteq> None" by blast
    qed
    have here: "\<forall>n < sb_Size b. M' (sb_Offs b + n) \<noteq> None"
    proof (intro allI impI)
      fix n assume "n < sb_Size b"
      then have "?M1 (sb_Offs b + n) \<noteq> None" by (simp add: len)
      with keep show "M' (sb_Offs b + n) \<noteq> None" by blast
    qed
    from wr here
    have "\<forall>c \<in> set (b # bs). Psycho_Peak (\<lambda>n. A (sb_Offs c + n)) (sb_Size c) \<noteq> 0 \<longrightarrow>
                (\<forall>n < sb_Size c. M' (sb_Offs c + n) \<noteq> None)"
      by simp
    with call keep' show ?thesis by (intro exI [of _ M'] conjI)
  qed
qed

lemma SubBlockWalk_size_le: "b \<in> set (SubBlockWalk N offs p) \<Longrightarrow> sb_Size b \<le> N"
proof (induction N offs p rule: SubBlockWalk.induct)
  case (1 N offs p)
  let ?sz = "drop_bit (unat (p AND 0x7)) N"
  have sz: "?sz \<le> N" by (simp add: drop_bit_eq_div)
  show ?case
  proof (cases "drop_bit 4 p \<noteq> 0")
    case True
    from "1.prems" True have
      "b = \<lparr>sb_Offs = offs, sb_Size = ?sz, sb_Transient = bit p 3\<rparr> \<or>
       b \<in> set (SubBlockWalk N (offs + ?sz) (drop_bit 4 p))"
      by (subst (asm) SubBlockWalk.simps) (simp add: Let_def)
    then show ?thesis
    proof
      assume "b = \<lparr>sb_Offs = offs, sb_Size = ?sz, sb_Transient = bit p 3\<rparr>"
      with sz show ?thesis by simp
    next
      assume "b \<in> set (SubBlockWalk N (offs + ?sz) (drop_bit 4 p))"
      from "1.IH" [OF refl True this] show ?thesis .
    qed
  next
    case False
    from "1.prems" False have "b = \<lparr>sb_Offs = offs, sb_Size = ?sz, sb_Transient = bit p 3\<rparr>"
      by (subst (asm) SubBlockWalk.simps) (simp add: Let_def)
    with sz show ?thesis by simp
  qed
qed

text \<open>
  The function is safe for amplitudes that are not negative when the quotient
  \<open>2^32 / peak\<close> of every sub-block with a non-zero peak is finite, which for a float
  peak means a peak above \<open>2^-96\<close>: the function returns without dividing by zero, and
  in every sub-block of size \<open>S\<close> with a non-zero peak and at every band \<open>n < S\<close> of it,
  \<open>Energy[n] \<ge> 1\<close>, the window edges after the re-focus are \<open>BandBeg = 29(n+1)\<close> and
  \<open>BandEnd = 45(n+1)\<close>, the window \<open>[floor(29(n+1)/32), min(floor(45(n+1)/32), S))\<close> is
  not empty, \<open>SumW\<close> is the sum of \<open>Energy\<close> over it and positive, and \<open>MaskingNp[n]\<close> is
  written. (\<open>45 * BlockSize < 2^31\<close> keeps \<open>BandEnd\<close> within a C \<open>int\<close>.)
\<close>

lemma CalculatePsychoacoustics_safe:
  assumes "0 \<le> WindowCtrl" "WindowCtrl < 256" "45 * BlockSize < 2 ^ 31"
    and amp: "\<And>n. 0 \<le> BufferAmp2 n"
    and fin: "\<forall>b \<in> set (SubBlockWalk BlockSize 0 (Pattern ! nat (drop_bit 4 WindowCtrl))).
            Psycho_Peak (\<lambda>n. BufferAmp2 (sb_Offs b + n)) (sb_Size b) \<noteq> 0 \<longrightarrow>
            2 ^ 32 / Psycho_Peak (\<lambda>n. BufferAmp2 (sb_Offs b + n)) (sb_Size b) < 2 ^ 128 - 2 ^ 103"
  shows "\<exists>p MaskingNp.
           ULC_SubBlockDecimationPattern WindowCtrl = Some p \<and>
           Block_Transform_CalculatePsychoacoustics noise BufferAmp2 BlockSize WindowCtrl = Inr MaskingNp \<and>
           (\<forall>b \<in> set (SubBlockWalk BlockSize 0 p).
               Psycho_Peak (\<lambda>n. BufferAmp2 (sb_Offs b + n)) (sb_Size b) \<noteq> 0 \<longrightarrow>
               (\<exists>tr. Psycho_SubBlock (PSYCHO_ULTRASTABLE noise) (\<lambda>n. BufferAmp2 (sb_Offs b + n)) (sb_Size b)
                       = Masked (Some tr) \<and>
                     length tr = sb_Size b \<and>
                     (\<forall>n < sb_Size b.
                         1 \<le> Psycho_EnergyBuffer (\<lambda>n. BufferAmp2 (sb_Offs b + n)) (sb_Size b) n \<and>
                         pv_BandBeg (fst (tr ! n)) = 29 * Suc n \<and>
                         pv_BandEnd (fst (tr ! n)) = 45 * Suc n \<and>
                         29 * Suc n div 32 < min (45 * Suc n div 32) (sb_Size b) \<and>
                         pv_SumW (fst (tr ! n)) =
                           sum (Psycho_EnergyBuffer (\<lambda>n. BufferAmp2 (sb_Offs b + n)) (sb_Size b))
                             {29 * Suc n div 32..<min (45 * Suc n div 32) (sb_Size b)} \<and>
                         0 < pv_SumW (fst (tr ! n)))) \<and>
               (\<forall>n < sb_Size b. MaskingNp (sb_Offs b + n) \<noteq> None))"
proof -
  let ?p = "Pattern ! nat (drop_bit 4 WindowCtrl)"
  let ?bs = "SubBlockWalk BlockSize 0 ?p"
  let ?u = "PSYCHO_ULTRASTABLE noise"
  note look = Pattern_lookup(1) [OF assms(1,2)]
  have sizes: "\<forall>b \<in> set ?bs. sb_Size b \<le> 2 ^ 31"
  proof
    fix b assume "b \<in> set ?bs"
    from SubBlockWalk_size_le [OF this] assms(3) show "sb_Size b \<le> 2 ^ 31" by linarith
  qed
  from Psycho_SubBlocks_result [OF sizes amp fin, of ?u Map.empty]
  obtain M where run: "Psycho_SubBlocks ?u BufferAmp2 ?bs Map.empty = Inr M"
    and wr: "\<forall>b \<in> set ?bs. Psycho_Peak (\<lambda>n. BufferAmp2 (sb_Offs b + n)) (sb_Size b) \<noteq> 0 \<longrightarrow>
                (\<forall>n < sb_Size b. M (sb_Offs b + n) \<noteq> None)"
    by blast
  have call: "Block_Transform_CalculatePsychoacoustics noise BufferAmp2 BlockSize WindowCtrl = Inr M"
    by (simp add: Block_Transform_CalculatePsychoacoustics_def look run)
  have each: "\<forall>b \<in> set ?bs.
      Psycho_Peak (\<lambda>n. BufferAmp2 (sb_Offs b + n)) (sb_Size b) \<noteq> 0 \<longrightarrow>
      (\<exists>tr. Psycho_SubBlock ?u (\<lambda>n. BufferAmp2 (sb_Offs b + n)) (sb_Size b) = Masked (Some tr) \<and>
            length tr = sb_Size b \<and>
            (\<forall>n < sb_Size b.
                1 \<le> Psycho_EnergyBuffer (\<lambda>n. BufferAmp2 (sb_Offs b + n)) (sb_Size b) n \<and>
                pv_BandBeg (fst (tr ! n)) = 29 * Suc n \<and>
                pv_BandEnd (fst (tr ! n)) = 45 * Suc n \<and>
                29 * Suc n div 32 < min (45 * Suc n div 32) (sb_Size b) \<and>
                pv_SumW (fst (tr ! n)) =
                  sum (Psycho_EnergyBuffer (\<lambda>n. BufferAmp2 (sb_Offs b + n)) (sb_Size b))
                    {29 * Suc n div 32..<min (45 * Suc n div 32) (sb_Size b)} \<and>
                0 < pv_SumW (fst (tr ! n)))) \<and>
      (\<forall>n < sb_Size b. M (sb_Offs b + n) \<noteq> None)"
  proof (intro ballI impI conjI)
    fix b assume b: "b \<in> set ?bs"
      and peak: "Psycho_Peak (\<lambda>n. BufferAmp2 (sb_Offs b + n)) (sb_Size b) \<noteq> 0"
    from sizes b have sz: "sb_Size b \<le> 2 ^ 31" ..
    from fin b peak have f: "2 ^ 32 / Psycho_Peak (\<lambda>n. BufferAmp2 (sb_Offs b + n)) (sb_Size b)
        < 2 ^ 128 - 2 ^ 103" by blast
    have a: "\<And>n. 0 \<le> (\<lambda>n. BufferAmp2 (sb_Offs b + n)) n" by (rule amp)
    from Psycho_SubBlock_result [OF peak sz a f, of ?u]
    show "\<exists>tr. Psycho_SubBlock ?u (\<lambda>n. BufferAmp2 (sb_Offs b + n)) (sb_Size b) = Masked (Some tr) \<and>
            length tr = sb_Size b \<and>
            (\<forall>n < sb_Size b.
                1 \<le> Psycho_EnergyBuffer (\<lambda>n. BufferAmp2 (sb_Offs b + n)) (sb_Size b) n \<and>
                pv_BandBeg (fst (tr ! n)) = 29 * Suc n \<and>
                pv_BandEnd (fst (tr ! n)) = 45 * Suc n \<and>
                29 * Suc n div 32 < min (45 * Suc n div 32) (sb_Size b) \<and>
                pv_SumW (fst (tr ! n)) =
                  sum (Psycho_EnergyBuffer (\<lambda>n. BufferAmp2 (sb_Offs b + n)) (sb_Size b))
                    {29 * Suc n div 32..<min (45 * Suc n div 32) (sb_Size b)} \<and>
                0 < pv_SumW (fst (tr ! n)))" .
    from wr b peak show "\<forall>n < sb_Size b. M (sb_Offs b + n) \<noteq> None" by blast
  qed
  from look call each show ?thesis
    by (intro exI [of _ ?p] exI [of _ M] conjI)
qed

text \<open>
  An instance: a block of 8 samples in two sub-blocks of 4, the first silent and the
  second at amplitude 1; the four entries of the second are written.
\<close>

lemma Example_masking_safe:
  "\<exists>MaskingNp.
       Block_Transform_CalculatePsychoacoustics True (\<lambda>n. if n < 4 then 0 else 1) 8 0x30 = Inr MaskingNp \<and>
       MaskingNp 4 \<noteq> None \<and> MaskingNp 5 \<noteq> None \<and> MaskingNp 6 \<noteq> None \<and> MaskingNp 7 \<noteq> None"
proof -
  let ?A = "\<lambda>n :: nat. if n < 4 then 0 else (1 :: real)"
  have val: "ULC_SubBlockDecimationPattern 0x30 = Some 0x91"
    by (simp add: ULC_SubBlockDecimationPattern_def Pattern_def)
  have idx: "Pattern ! nat (drop_bit 4 (0x30 :: int)) = 0x91"
    using val by (simp add: ULC_SubBlockDecimationPattern_def Let_def split: if_splits)
  have walk: "SubBlockWalk 8 0 0x91 =
      [\<lparr>sb_Offs = 0, sb_Size = 4, sb_Transient = False\<rparr>,
       \<lparr>sb_Offs = 4, sb_Size = 4, sb_Transient = True\<rparr>]"
    by (simp add: SubBlockWalk.simps Let_def drop_bit_eq_div bit_iff_odd)
  have p0: "Psycho_Peak (\<lambda>n. ?A (0 + n)) 4 = 0"
    by (simp add: Psycho_Peak_def upt_small)
  have p1: "Psycho_Peak (\<lambda>n. ?A (4 + n)) 4 = 1"
    by (simp add: Psycho_Peak_def upt_small)
  have amp: "\<And>n. 0 \<le> ?A n" by simp
  have fin: "\<forall>b \<in> set (SubBlockWalk 8 0 (Pattern ! nat (drop_bit 4 (0x30 :: int)))).
            Psycho_Peak (\<lambda>n. ?A (sb_Offs b + n)) (sb_Size b) \<noteq> 0 \<longrightarrow>
            2 ^ 32 / Psycho_Peak (\<lambda>n. ?A (sb_Offs b + n)) (sb_Size b) < 2 ^ 128 - 2 ^ 103"
    unfolding idx walk using p0 p1 by simp
  have r: "(0 :: int) \<le> 0x30" "(0x30 :: int) < 256" "45 * (8 :: nat) < 2 ^ 31" by simp_all
  from CalculatePsychoacoustics_safe [OF r amp fin, of True]
  obtain M where call: "Block_Transform_CalculatePsychoacoustics True ?A 8 0x30 = Inr M"
    and wr: "Psycho_Peak (\<lambda>n. ?A (4 + n)) 4 \<noteq> 0 \<longrightarrow> (\<forall>n < 4. M (4 + n) \<noteq> None)"
    by (auto simp: val walk)
  from wr p1 have all: "\<forall>n < 4. M (4 + n) \<noteq> None" by simp
  have "M 4 \<noteq> None" "M 5 \<noteq> None" "M 6 \<noteq> None" "M 7 \<noteq> None"
    using all [rule_format, of 0] all [rule_format, of 1] all [rule_format, of 2]
      all [rule_format, of 3] by simp_all
  with call show ?thesis by simp
qed

text \<open>
  A zero in \<open>Energy[1]\<close> makes the loop divide by zero at band 1, where the window is
  \<open>[1, 2)\<close>.
\<close>

lemma uint32_of_float_less: "uint32_of_float z < 2 ^ 32"
  by (cases z) (simp_all add: nat_less_iff)

lemma Psycho_Energy_less: "Psycho_Energy v < 2 ^ 32"
  using uint32_of_float_less [of "fmul (fsqrt v) (Finite (2 ^ 16))"]
  by (simp add: Psycho_Energy_def Let_def)

lemma Psycho_BandLoop_zero_energy:
  assumes S: "2 \<le> S" "S \<le> 2 ^ 31" and E: "\<And>i. E i < 2 ^ 32" and zero: "E 1 = 0"
  shows "Psycho_BandLoop u E Np S il nl 0
           \<lparr>pv_BandBeg = 0, pv_BandEnd = 0, pv_Sum = 0, pv_SumW = 0,
            pv_NoiseBeg = 0, pv_NoiseEnd = 0, pv_NoiseSum = 0\<rparr> = None"
proof -
  let ?init = "\<lparr>pv_BandBeg = 0, pv_BandEnd = 0, pv_Sum = 0, pv_SumW = 0,
                pv_NoiseBeg = 0, pv_NoiseEnd = 0, pv_NoiseSum = 0\<rparr>"
  let ?v0 = "Refocus u E Np S ?init"
  let ?v1 = "Refocus u E Np S ?v0"
  have init: "Main_Inv E S 0 ?init"
    by (simp add: Main_Inv_def Window_Lo_0)
  from S have lt: "0 < S" "Suc 0 < S" by simp_all
  have inv1: "Main_Inv E S (Suc 0) ?v0"
    using init lt(1) S(2) E by (rule Refocus_Main_Inv)
  have inv2: "Main_Inv E S (Suc (Suc 0)) ?v1"
    using inv1 lt(2) S(2) E by (rule Refocus_Main_Inv)
  have lo: "Window_Lo (Suc (Suc 0)) = 1" by (simp add: Window_Lo_def)
  have hi: "Window_Hi S (Suc (Suc 0)) = 2" using S(1) by (simp add: Window_Hi_def)
  from inv2 have "pv_SumW ?v1 = sum E {1..<2}"
    unfolding Main_Inv_def lo hi by (elim conjE)
  also have "\<dots> = sum E {1}" by (rule arg_cong [of _ _ "sum E"]) auto
  also have "\<dots> = E 1" by simp
  finally have z: "pv_SumW ?v1 = 0" using zero by simp
  have second: "Psycho_BandLoop u E Np S il nl (Suc 0) ?v0 = None"
    using lt(2) z by (subst Psycho_BandLoop_unfold) simp
  show ?thesis
    using lt(1) second by (subst Psycho_BandLoop_unfold) simp
qed

text \<open>
  The failing input: one sub-block of 2048 bands, band 0 at the squared amplitude
  \<open>2^-97\<close> and silence elsewhere.
\<close>

definition Example_TinyPeak :: "nat \<Rightarrow> real" where
  "Example_TinyPeak n = (if n = 0 then 1 / 2 ^ 97 else 0)"

lemma Example_TinyPeak_peak: "Psycho_Peak Example_TinyPeak (Suc S) = 1 / 2 ^ 97"
proof (induction S)
  case 0
  then show ?case by (simp add: Psycho_Peak_def Example_TinyPeak_def)
next
  case (Suc S)
  have a: "Example_TinyPeak (Suc S) = 0" by (simp add: Example_TinyPeak_def)
  have "Psycho_Peak Example_TinyPeak (Suc (Suc S)) =
      (if Example_TinyPeak (Suc S) > Psycho_Peak Example_TinyPeak (Suc S)
       then Example_TinyPeak (Suc S) else Psycho_Peak Example_TinyPeak (Suc S))"
    by (rule Psycho_Peak_Suc)
  also have "\<dots> = 1 / 2 ^ 97" unfolding a Suc.IH by simp
  finally show ?case .
qed

lemma Example_TinyPeak_2048: "Psycho_Peak Example_TinyPeak 2048 = 1 / 2 ^ 97"
  using Example_TinyPeak_peak [of 2047] by simp

lemma Example_TinyPeak_Norm: "c_float_of (2 ^ 32 / (1 / 2 ^ 97)) = PosInf"
  by (simp add: c_float_of_def)

lemma Example_TinyPeak_Energy:
  "Psycho_EnergyBuffer Example_TinyPeak 2048 0 = 0xFFFFFFFF"
  "Psycho_EnergyBuffer Example_TinyPeak 2048 1 = 0"
  unfolding Psycho_EnergyBuffer_def Example_TinyPeak_2048 Example_TinyPeak_Norm
  by (simp_all add: Example_TinyPeak_def Psycho_Energy_def Let_def)

lemma Example_TinyPeak_SubBlock: "Psycho_SubBlock u Example_TinyPeak 2048 = Masked None"
proof -
  have peak: "Psycho_Peak Example_TinyPeak 2048 \<noteq> 0"
    by (simp add: Example_TinyPeak_2048)
  from Psycho_SubBlock_unfold [OF peak, of u]
  obtain Np il nl where unfold: "Psycho_SubBlock u Example_TinyPeak 2048 =
      Masked (Psycho_BandLoop u (Psycho_EnergyBuffer Example_TinyPeak 2048) Np 2048 il nl 0
                \<lparr>pv_BandBeg = 0, pv_BandEnd = 0, pv_Sum = 0, pv_SumW = 0,
                 pv_NoiseBeg = 0, pv_NoiseEnd = 0, pv_NoiseSum = 0\<rparr>)"
    by blast
  have E: "\<And>i. Psycho_EnergyBuffer Example_TinyPeak 2048 i < 2 ^ 32"
    unfolding Psycho_EnergyBuffer_def by (rule Psycho_Energy_less)
  have S: "(2 :: nat) \<le> 2048" "(2048 :: nat) \<le> 2 ^ 31" by simp_all
  show ?thesis
    unfolding unfold
    by (simp only: Psycho_BandLoop_zero_energy
          [where S = 2048 and E = "Psycho_EnergyBuffer Example_TinyPeak 2048",
           OF S E Example_TinyPeak_Energy(2)])
qed

text \<open>
  A sub-block of four bands of equal amplitude: every \<open>Energy\<close> entry is the clip value
  \<open>0xFFFFFFFF\<close>, the windows at the bands 0, 1, 2, 3 are \<open>[0,1)\<close>, \<open>[1,2)\<close>, \<open>[2,4)\<close>,
  \<open>[3,4)\<close>, and \<open>SumW\<close> is one, one, two and one times \<open>0xFFFFFFFF\<close>. (The interval
  \<open>[floor(29n/32), min(floor(45n/32), S))\<close> is the window of the band before, and is
  empty at \<open>n = 0\<close>.)
\<close>

lemma sqrt_2_32: "sqrt 4294967296 = 65536"
  by (rule real_sqrt_unique) simp_all

lemma Example_Peak: "Psycho_Peak (\<lambda>n. 1) 4 = 1"
  by (simp add: Psycho_Peak_def upt_small)

lemma Example_EnergyBuffer: "Psycho_EnergyBuffer (\<lambda>n. 1) 4 = (\<lambda>n. 4294967295)"
  by (rule ext)
    (simp add: Psycho_EnergyBuffer_def Example_Peak Psycho_Energy_def Let_def sqrt_2_32 c_float_of_def)

lemma list_of_length_4: "length xs = 4 \<Longrightarrow> xs = [xs ! 0, xs ! 1, xs ! 2, xs ! 3]"
  by (rule nth_equalityI) (auto simp: nth_Cons' less_Suc_eq numeral_eq_Suc)

lemma Example_SubBlock_windows:
  "{29 * 0 div 32..<min (45 * 0 div 32) (4 :: nat)} = {} \<and>
   (\<exists>tr. Psycho_SubBlock False (\<lambda>n. 1) 4 = Masked (Some tr) \<and>
         map (\<lambda>(v, m). (pv_BandBeg v div 32, min (pv_BandEnd v div 32) 4, pv_SumW v)) tr =
           [(0, 1, 0xFFFFFFFF), (1, 2, 0xFFFFFFFF), (2, 4, 0x1FFFFFFFE), (3, 4, 0xFFFFFFFF)])"
proof -
  have peak: "Psycho_Peak (\<lambda>n. 1) 4 \<noteq> 0" by (simp add: Example_Peak)
  have fin: "2 ^ 32 / Psycho_Peak (\<lambda>n. 1) 4 < 2 ^ 128 - 2 ^ 103" by (simp add: Example_Peak)
  have S: "(4 :: nat) \<le> 2 ^ 31" by simp
  have amp: "\<And>n :: nat. (0 :: real) \<le> (\<lambda>n. 1) n" by simp
  from Psycho_SubBlock_result [OF peak S amp fin, of False]
  obtain tr :: "(Psycho_Vars \<times> c_float) list"
    where run: "Psycho_SubBlock False (\<lambda>n. 1) 4 = Masked (Some tr)"
      and len: "length tr = 4"
      and each: "\<And>n. n < 4 \<Longrightarrow>
            pv_BandBeg (fst (tr ! n)) = 29 * Suc n \<and>
            pv_BandEnd (fst (tr ! n)) = 45 * Suc n \<and>
            pv_SumW (fst (tr ! n)) =
              sum (Psycho_EnergyBuffer (\<lambda>n. 1) 4) {29 * Suc n div 32..<min (45 * Suc n div 32) 4}"
    by auto
  let ?f = "\<lambda>(v :: Psycho_Vars, m :: c_float).
              (pv_BandBeg v div 32, min (pv_BandEnd v div 32) (4 :: nat), pv_SumW v)"
  have f0: "?f (tr ! 0) = (0, 1, 0xFFFFFFFF)"
    using each [of 0] by (simp add: case_prod_beta Example_EnergyBuffer)
  have f1: "?f (tr ! 1) = (1, 2, 0xFFFFFFFF)"
    using each [of 1] by (simp add: case_prod_beta Example_EnergyBuffer)
  have f2: "?f (tr ! 2) = (2, 4, 0x1FFFFFFFE)"
    using each [of 2] by (simp add: case_prod_beta Example_EnergyBuffer)
  have f3: "?f (tr ! 3) = (3, 4, 0xFFFFFFFF)"
    using each [of 3] by (simp add: case_prod_beta Example_EnergyBuffer)
  have "map ?f tr = map ?f [tr ! 0, tr ! 1, tr ! 2, tr ! 3]"
    by (rule arg_cong [OF list_of_length_4 [OF len]])
  also have "\<dots> = [?f (tr ! 0), ?f (tr ! 1), ?f (tr ! 2), ?f (tr ! 3)]"
    by (simp only: list.map)
  also have "\<dots> = [(0, 1, 0xFFFFFFFF), (1, 2, 0xFFFFFFFF), (2, 4, 0x1FFFFFFFE), (3, 4, 0xFFFFFFFF)]"
    by (simp only: f0 f1 f2 f3)
  finally have "map ?f tr =
      [(0, 1, 0xFFFFFFFF), (1, 2, 0xFFFFFFFF), (2, 4, 0x1FFFFFFFE), (3, 4, 0xFFFFFFFF)]" .
  with run show ?thesis by simp
qed

subsection \<open>Claim C10\<close>

text \<open>
  C10 says that in every sub-block with a non-zero peak every \<open>Energy[]\<close> entry is at
  least 1, so that \<open>SumW\<close> is positive and \<open>Sum / SumW\<close> never divides by zero; the
  function's own comment asks for the same (``Ensure that Energy[] is not zero or
  division by 0 may occur''). The clamp does not catch a NaN. For a sub-block whose peak
  is \<open>2^-97\<close> (any non-zero peak up to \<open>2^-96\<close>) the normalisation \<open>0x1.0p32f / Norm\<close>
  is \<open>2^129\<close>, which is an infinity in single precision; the peak band becomes
  \<open>+inf\<close> and \<open>Energy[0] = 0xFFFFFFFF\<close>, but every silent band becomes
  \<open>0 * inf = NaN\<close>, fails both comparisons of the clamp, and is stored as
  \<open>(uint32_t)NaN = 0\<close>. At band 1 the window is \<open>[1, 2)\<close>, \<open>SumW = Energy[1] = 0\<close>, and
  \<open>Sum / SumW\<close> divides by zero, with or without the noise window.
\<close>

theorem C10_tiny_peak_divides_by_zero:
  "(\<forall>n. 0 \<le> Example_TinyPeak n) \<and>
   Psycho_Peak Example_TinyPeak 2048 = 1 / 2 ^ 97 \<and>
   c_float_of (2 ^ 32 / Psycho_Peak Example_TinyPeak 2048) = PosInf \<and>
   Psycho_EnergyBuffer Example_TinyPeak 2048 0 = 0xFFFFFFFF \<and>
   Psycho_EnergyBuffer Example_TinyPeak 2048 1 = 0 \<and>
   Block_Transform_CalculatePsychoacoustics False Example_TinyPeak 2048 0x10 = Inl DivisionByZero \<and>
   Block_Transform_CalculatePsychoacoustics True Example_TinyPeak 2048 0x10 = Inl DivisionByZero"
proof -
  have amp: "\<forall>n. 0 \<le> Example_TinyPeak n" by (simp add: Example_TinyPeak_def)
  have norm: "c_float_of (2 ^ 32 / Psycho_Peak Example_TinyPeak 2048) = PosInf"
    unfolding Example_TinyPeak_2048 by (rule Example_TinyPeak_Norm)
  have val: "ULC_SubBlockDecimationPattern 0x10 = Some 0x8"
    by (simp add: ULC_SubBlockDecimationPattern_def Pattern_def)
  have walk: "SubBlockWalk 2048 0 0x8 = [\<lparr>sb_Offs = 0, sb_Size = 2048, sb_Transient = True\<rparr>]"
    by (simp add: SubBlockWalk.simps Let_def drop_bit_eq_div bit_iff_odd)
  have call: "Block_Transform_CalculatePsychoacoustics noise Example_TinyPeak 2048 0x10 =
      Inl DivisionByZero" for noise
    by (simp add: Block_Transform_CalculatePsychoacoustics_def val walk Example_TinyPeak_SubBlock)
  from amp Example_TinyPeak_2048 norm Example_TinyPeak_Energy call [of False] call [of True]
  show ?thesis by (intro conjI)
qed

section \<open>Bitstream serializer: \<open>Block_Encode\<close>\<close>

text \<open>
  \<open>Block_Encode\<close> first calls \<open>Block_Encode_BuildQuants\<close> and \<open>Analysis_KeysSort\<close>,
  which are not in the sources at hand. The model starts after them: \<open>Quants\<close> holds the
  quantizers that were built, \<open>nNzBands\<close> is the count that was returned, and
  \<open>AnalysisKeys\<close> is the key array after the sort (entry \<open>k\<close> is \<open>Keys[k].Key\<close>, the
  channel in the high bits and the band in the low \<open>log2(BlockSize)\<close> bits). The macro
  \<open>QUANTIZER_UNUSED\<close> is a parameter. Arrays are functions from the index to the
  value; the state record holds the fields of \<open>struct ULC_EncoderState_t\<close> that the
  function reads. \<open>IntLog2\<close> (\<open>ulcUtility.h\<close>, not in the sources) is the integer
  logarithm defined above.
\<close>

record ULC_EncoderState_t =
  nChan           :: nat
  BlockSize       :: nat
  nQuants         :: nat
  TransformBuffer :: "nat \<Rightarrow> nat \<Rightarrow> real"
  QuantsBw        :: "nat \<Rightarrow> nat"
  Quants          :: "nat \<Rightarrow> nat \<Rightarrow> int"
  AnalysisKeys    :: "nat \<Rightarrow> nat"

text \<open>
  The output: \<open>DstBuffer\<close> as the sequence of nibbles written so far, \<open>Size\<close> in bits,
  and the count of non-zero coefficients. \<open>Block_Encode_WriteNybble\<close> takes a
  \<open>uint8_t\<close> and ORs \<open>x << 4\<close> into the current byte after shifting the byte down by 4,
  so the low four bits of the argument are appended (two nibbles per byte, first nibble
  low).
\<close>

record Encode_Output =
  DstBuffer :: "nat list"
  Size      :: nat
  nNzCoded  :: nat

definition Block_Encode_WriteNybble :: "int \<Rightarrow> Encode_Output \<Rightarrow> Encode_Output" where
  "Block_Encode_WriteNybble x out =
     out\<lparr>DstBuffer := DstBuffer out @ [nat (x mod 16)], Size := Size out + 4\<rparr>"

text \<open>C's \<open>round\<close>: to the nearest integer, halfway cases away from zero.\<close>

definition c_round :: "real \<Rightarrow> int" where
  "c_round x = (if 0 \<le> x then \<lfloor>x + 1/2\<rfloor> else - \<lfloor>- x + 1/2\<rfloor>)"

text \<open>
  \<^verbatim>\<open>for(QBand=0;QBand<nQuants;QBand++) {
    size_t s = IntLog2(Quants[Chan][QBand]);
    Block_Encode_WriteNybble(s, &DstBuffer, &Size); }\<close>
\<close>

function WriteQuantizers :: "ULC_EncoderState_t \<Rightarrow> nat \<Rightarrow> nat \<Rightarrow> Encode_Output \<Rightarrow> Encode_Output" where
  "WriteQuantizers State chan qband out =
     (if qband < nQuants State
      then (let s = IntLog2 (nat (Quants State chan qband))
            in WriteQuantizers State chan (qband + 1) (Block_Encode_WriteNybble (int s) out))
      else out)"
  by pat_completeness auto
termination
  by (relation "measure (\<lambda>(State, chan, qband, out). nQuants State - qband)") auto

text \<open>
  \<^verbatim>\<open>while(NxtQuantBand < nQuants && Quants[Chan][NxtQuantBand] == QUANTIZER_UNUSED)
    LastNz += QuantsBw[NxtQuantBand++];\<close>
\<close>

function SkipUnused :: "int \<Rightarrow> ULC_EncoderState_t \<Rightarrow> nat \<Rightarrow> nat \<Rightarrow> nat \<Rightarrow> nat \<times> nat" where
  "SkipUnused QUANTIZER_UNUSED State chan NxtQuantBand LastNz =
     (if NxtQuantBand < nQuants State \<and> Quants State chan NxtQuantBand = QUANTIZER_UNUSED
      then SkipUnused QUANTIZER_UNUSED State chan (NxtQuantBand + 1) (LastNz + QuantsBw State NxtQuantBand)
      else (NxtQuantBand, LastNz))"
  by pat_completeness auto
termination
  by (relation "measure (\<lambda>(u, State, chan, q, l). nQuants State - q)") auto

text \<open>
  \<^verbatim>\<open>while(++NxtQuantBand < nQuants && Quants[Chan][NxtQuantBand] != QUANTIZER_UNUSED)
    LastNz += QuantsBw[NxtQuantBand];\<close>
\<close>

function ExtendRun :: "int \<Rightarrow> ULC_EncoderState_t \<Rightarrow> nat \<Rightarrow> nat \<Rightarrow> nat \<Rightarrow> nat \<times> nat" where
  "ExtendRun QUANTIZER_UNUSED State chan NxtQuantBand LastNz =
     (let NxtQuantBand = NxtQuantBand + 1
      in if NxtQuantBand < nQuants State \<and> Quants State chan NxtQuantBand \<noteq> QUANTIZER_UNUSED
         then ExtendRun QUANTIZER_UNUSED State chan NxtQuantBand (LastNz + QuantsBw State NxtQuantBand)
         else (NxtQuantBand, LastNz))"
  by pat_completeness auto
termination
  by (relation "measure (\<lambda>(u, State, chan, q, l). nQuants State - q)") auto

text \<open>
  The zero-run loop \<^verbatim>\<open>while(zR >= 4) { ... NextNz += n; zR -= n; }\<close>; the result is the
  residual \<open>zR\<close>, the new \<open>NextNz\<close> and the output.
\<close>

function ZeroRuns :: "nat \<Rightarrow> nat \<Rightarrow> Encode_Output \<Rightarrow> nat \<times> nat \<times> Encode_Output" where
  "ZeroRuns zR NextNz out =
     (if zR \<ge> 4
      then (let n = zR
            in if n < 26
               then (let n = (n - 2) div 2;
                         out = Block_Encode_WriteNybble 0x8 out;
                         out = Block_Encode_WriteNybble (int n) out;
                         n = n * 2 + 2
                     in ZeroRuns (zR - n) (NextNz + n) out)
               else (let n = (n - 26) div 2;
                         n = (if n > 0x3F then 0x3F else n);
                         out = Block_Encode_WriteNybble 0x8 out;
                         out = Block_Encode_WriteNybble (0xC + int (drop_bit 4 n)) out;
                         out = Block_Encode_WriteNybble (int (n AND 0xF)) out;
                         n = n * 2 + 26
                     in ZeroRuns (zR - n) (NextNz + n) out))
      else (zR, NextNz, out))"
  by pat_completeness auto
termination
  by (relation "measure (\<lambda>(zR, NextNz, out). zR)") (auto simp: Let_def)

text \<open>
  The coefficient loop \<^verbatim>\<open>do { ... } while(++NextNz <= tBand);\<close>; the result is
  \<open>NextNz\<close>, \<open>CurQuantEnd\<close>, \<open>CurQuantBand\<close> and the output.
\<close>

function CodeCoefficients ::
    "ULC_EncoderState_t \<Rightarrow> nat \<Rightarrow> nat \<Rightarrow> nat \<Rightarrow> nat \<Rightarrow> nat \<Rightarrow> Encode_Output \<Rightarrow> nat \<times> nat \<times> nat \<times> Encode_Output" where
  "CodeCoefficients State chan tBand NextNz CurQuantEnd CurQuantBand out =
     (let (CurQuantBand, CurQuantEnd) =
            (if NextNz \<ge> CurQuantEnd
             then (CurQuantBand + 1, CurQuantEnd + QuantsBw State (CurQuantBand + 1))
             else (CurQuantBand, CurQuantEnd));
          Qn = c_round (TransformBuffer State chan NextNz / real_of_int (Quants State chan CurQuantBand));
          Qn = (if Qn < -7 then -7 else Qn);
          Qn = (if Qn > 7 then 7 else Qn);
          out = Block_Encode_WriteNybble Qn out;
          out = (if Qn \<noteq> 0 then out\<lparr>nNzCoded := nNzCoded out + 1\<rparr> else out);
          NextNz = NextNz + 1
      in if NextNz \<le> tBand
         then CodeCoefficients State chan tBand NextNz CurQuantEnd CurQuantBand out
         else (NextNz, CurQuantEnd, CurQuantBand, out))"
  by pat_completeness auto
termination
  by (relation "measure (\<lambda>(State, chan, tBand, NextNz, e, b, out). Suc tBand - NextNz)") auto

text \<open>
  The key loop \<^verbatim>\<open>do { ... } while(++Key < nNzBands);\<close> with its two \<open>break\<close>s. The run
  \<open>zR = tBand - NextNz\<close> is a \<open>size_t\<close>: for a key below \<open>NextNz\<close> it wraps to a value
  near \<open>2^64\<close> and the zero-run loop writes far past any buffer; the model stops there with
  \<open>None\<close>. The result is \<open>Key\<close>, \<open>NextNz\<close> and the output.
\<close>

function CodeKeys ::
    "ULC_EncoderState_t \<Rightarrow> nat \<Rightarrow> nat \<Rightarrow> nat \<Rightarrow> nat \<Rightarrow> nat \<Rightarrow> nat \<Rightarrow> nat \<Rightarrow> Encode_Output \<Rightarrow>
     (nat \<times> nat \<times> Encode_Output) option" where
  "CodeKeys State nNzBands chan LastNz key NextNz CurQuantEnd CurQuantBand out =
     (let tBand = AnalysisKeys State key AND (BlockSize State - 1);
          tChan = drop_bit (IntLog2 (BlockSize State)) (AnalysisKeys State key)
      in if tBand \<ge> LastNz then Some (key, NextNz, out)
         else if tChan \<noteq> chan then Some (key, NextNz, out)
         else if tBand < NextNz then None
         else (let (zR, NextNz, out) = ZeroRuns (tBand - NextNz) NextNz out;
                   (NextNz, CurQuantEnd, CurQuantBand, out) =
                      CodeCoefficients State chan tBand NextNz CurQuantEnd CurQuantBand out;
                   key = key + 1
               in if key < nNzBands
                  then CodeKeys State nNzBands chan LastNz key NextNz CurQuantEnd CurQuantBand out
                  else Some (key, NextNz, out)))"
  by pat_completeness auto
termination
  by (relation "measure (\<lambda>(State, nNzBands, chan, LastNz, key, rest). nNzBands - key)") auto

declare WriteQuantizers.simps [simp del] SkipUnused.simps [simp del] ExtendRun.simps [simp del]
  ZeroRuns.simps [simp del] CodeCoefficients.simps [simp del] CodeKeys.simps [simp del]

lemma SkipUnused_result:
  "SkipUnused U State chan q l = (q', l') \<Longrightarrow>
     q \<le> q' \<and> (q \<le> nQuants State \<longrightarrow> q' \<le> nQuants State) \<and>
     l' = l + (\<Sum>i = q..<q'. QuantsBw State i)"
proof (induction U State chan q l rule: SkipUnused.induct)
  case (1 U State chan q l)
  show ?case
  proof (cases "q < nQuants State \<and> Quants State chan q = U")
    case True
    with "1.prems" have "SkipUnused U State chan (q + 1) (l + QuantsBw State q) = (q', l')"
      by (subst (asm) SkipUnused.simps) simp
    from "1.IH" [OF True this] True show ?thesis
      by (auto simp: sum.atLeast_Suc_lessThan)
  next
    case False
    with "1.prems" show ?thesis
      by (subst (asm) SkipUnused.simps) auto
  qed
qed

lemma ExtendRun_result:
  "ExtendRun U State chan q l = (q', l') \<Longrightarrow>
     q < q' \<and> (q < nQuants State \<longrightarrow> q' \<le> nQuants State) \<and>
     l' = l + (\<Sum>i = Suc q..<q'. QuantsBw State i)"
proof (induction U State chan q l rule: ExtendRun.induct)
  case (1 U State chan q l)
  show ?case
  proof (cases "q + 1 < nQuants State \<and> Quants State chan (q + 1) \<noteq> U")
    case True
    with "1.prems" have "ExtendRun U State chan (q + 1) (l + QuantsBw State (q + 1)) = (q', l')"
      by (subst (asm) ExtendRun.simps) (simp add: Let_def)
    from "1.IH" [OF refl True this] True show ?thesis
      by (auto simp: sum.atLeast_Suc_lessThan)
  next
    case False
    with "1.prems" show ?thesis
      by (subst (asm) ExtendRun.simps) (auto simp: Let_def)
  qed
qed

lemma CodeRuns_decreases:
  assumes "(q1, l1) = SkipUnused U State chan q l" "\<not> nQuants State \<le> q1"
    "(q2, l3) = ExtendRun U State chan q1 l2"
  shows "nQuants State - q2 < nQuants State - q"
proof -
  from SkipUnused_result [OF assms(1) [symmetric]] have "q \<le> q1" by simp
  moreover from ExtendRun_result [OF assms(3) [symmetric]] have "q1 < q2" by simp
  ultimately show ?thesis using assms(2) by simp
qed

text \<open>
  The loop \<^verbatim>\<open>for(;;)\<close> over the runs of consecutive used quantizer bands of one channel,
  with the stop code that ends a run. The subtraction \<open>LastNz - NextNz\<close> is again a
  \<open>size_t\<close>; the model has an error branch for a wrap. The result is \<open>Key\<close> and the
  output.
\<close>

function CodeRuns ::
    "int \<Rightarrow> ULC_EncoderState_t \<Rightarrow> nat \<Rightarrow> nat \<Rightarrow> nat \<Rightarrow> nat \<Rightarrow> nat \<Rightarrow> Encode_Output \<Rightarrow>
     (nat \<times> Encode_Output) option" where
  "CodeRuns QUANTIZER_UNUSED State nNzBands chan NxtQuantBand LastNz key out =
     (let (NxtQuantBand, LastNz) = SkipUnused QUANTIZER_UNUSED State chan NxtQuantBand LastNz
      in if NxtQuantBand \<ge> nQuants State then Some (key, out)
         else (let NextNz = LastNz;
                   LastNz = LastNz + QuantsBw State NxtQuantBand;
                   CurQuantBand = NxtQuantBand;
                   CurQuantEnd = LastNz;
                   (NxtQuantBand, LastNz) = ExtendRun QUANTIZER_UNUSED State chan NxtQuantBand LastNz
               in case CodeKeys State nNzBands chan LastNz key NextNz CurQuantEnd CurQuantBand out of
                    None \<Rightarrow> None
                  | Some (key, NextNz, out) \<Rightarrow>
                      if LastNz < NextNz then None
                      else (let n = LastNz - NextNz;
                                out = (if n = 1 then Block_Encode_WriteNybble 0x0 out
                                       else if n \<ge> 2
                                       then Block_Encode_WriteNybble 0x0 (Block_Encode_WriteNybble 0x8 out)
                                       else out)
                            in CodeRuns QUANTIZER_UNUSED State nNzBands chan NxtQuantBand LastNz key out)))"
  by pat_completeness auto
termination
  apply (relation "measure (\<lambda>(U, State, nNzBands, chan, q, rest). nQuants State - q)")
   apply simp
  apply simp
  apply (erule (2) CodeRuns_decreases)
  done

declare CodeRuns.simps [simp del]

text \<open>The loop over the channels.\<close>

function CodeChannels ::
    "int \<Rightarrow> ULC_EncoderState_t \<Rightarrow> nat \<Rightarrow> nat \<Rightarrow> nat \<Rightarrow> Encode_Output \<Rightarrow>
     (nat \<times> Encode_Output) option" where
  "CodeChannels QUANTIZER_UNUSED State nNzBands chan key out =
     (if chan < nChan State
      then (let out = WriteQuantizers State chan 0 out
            in case CodeRuns QUANTIZER_UNUSED State nNzBands chan 0 0 key out of
                 None \<Rightarrow> None
               | Some (key, out) \<Rightarrow> CodeChannels QUANTIZER_UNUSED State nNzBands (chan + 1) key out)
      else Some (key, out))"
  by pat_completeness auto
termination
  by (relation "measure (\<lambda>(U, State, nNzBands, chan, rest). nChan State - chan)") auto

declare CodeChannels.simps [simp del]

text \<open>
  The function returns \<open>Size\<close> and stores \<open>nNzCoded\<close>; the model returns both and the
  nibbles written. The last statement, which shifts a lone final nibble down, does not
  change the nibble sequence.
\<close>

definition Block_Encode ::
    "int \<Rightarrow> ULC_EncoderState_t \<Rightarrow> nat \<Rightarrow> (nat \<times> nat \<times> nat list) option" where
  "Block_Encode QUANTIZER_UNUSED State nNzBands =
     map_option (\<lambda>(key, out). (Size out, nNzCoded out, DstBuffer out))
       (CodeChannels QUANTIZER_UNUSED State nNzBands 0 0
          \<lparr>DstBuffer = [], Size = 0, nNzCoded = 0\<rparr>)"

text \<open>
  Modelled from the spec: the reading of the zero-run escape codes in the bitstream layout,
  \<open>8,1..B\<close> a short run of \<open>4 + 2*(x-1)\<close> zeros and \<open>8,C..F,Y\<close> a long run of
  \<open>26 + 2*(16*(x-C)+Y)\<close> zeros. \<open>DecodeZeroRuns\<close> reads a nibble sequence made of such
  codes only and returns the run lengths.
\<close>

fun DecodeZeroRuns :: "nat list \<Rightarrow> nat list option" where
  "DecodeZeroRuns [] = Some []"
| "DecodeZeroRuns [e] = None"
| "DecodeZeroRuns (e # x # rest) =
     (if e = 0x8 \<and> 0x1 \<le> x \<and> x \<le> 0xB
      then map_option ((#) (4 + 2 * (x - 1))) (DecodeZeroRuns rest)
      else (case rest of
              [] \<Rightarrow> None
            | y # rest' \<Rightarrow>
                if e = 0x8 \<and> 0xC \<le> x \<and> x \<le> 0xF \<and> y \<le> 0xF
                then map_option ((#) (26 + 2 * (16 * (x - 0xC) + y))) (DecodeZeroRuns rest')
                else None))"

definition ZeroRunLength_ok :: "nat \<Rightarrow> bool" where
  "ZeroRunLength_ok l = ((4 \<le> l \<and> l \<le> 24) \<or> (26 \<le> l \<and> l \<le> 152))"

text \<open>The two clamps \<^verbatim>\<open>if(Qn < -7) Qn = -7; if(Qn > +7) Qn = +7;\<close> as one function.\<close>

definition Clip7 :: "int \<Rightarrow> int" where
  "Clip7 Qn = (let Qn = (if Qn < -7 then -7 else Qn) in if Qn > 7 then 7 else Qn)"






text \<open>
  An input for the examples: one channel of 64 coefficients in two quantizer bands of 32
  with quantizer 1, keys at the bands 0, 10 and 40; band 9 holds 1.7 and has no key.
\<close>

definition Example_State :: ULC_EncoderState_t where
  "Example_State = \<lparr>nChan = 1, BlockSize = 64, nQuants = 2,
     TransformBuffer = (\<lambda>chan band. if band = 0 then 3.2 else if band = 9 then 1.7
                                     else if band = 10 then - 2.4 else if band = 40 then 7.9 else 0),
     QuantsBw = (\<lambda>q. 32), Quants = (\<lambda>chan q. 1), AnalysisKeys = (\<lambda>k. [0, 10, 40] ! k)\<rparr>"

subsection \<open>Facts about the loops\<close>

lemma WriteNybble_simps [simp]:
  "DstBuffer (Block_Encode_WriteNybble x out) = DstBuffer out @ [nat (x mod 16)]"
  "Size (Block_Encode_WriteNybble x out) = Size out + 4"
  "nNzCoded (Block_Encode_WriteNybble x out) = nNzCoded out"
  by (simp_all add: Block_Encode_WriteNybble_def)

lemma long_run_nibbles:
  assumes "n \<le> 63"
  shows "12 \<le> 12 + drop_bit 4 n" "12 + drop_bit 4 n \<le> (15::nat)" "n AND 15 \<le> (15::nat)"
    "16 * drop_bit 4 n + (n AND 15) = (n::nat)"
proof -
  have d: "drop_bit 4 n = n div 16" by (simp add: drop_bit_eq_div)
  have a: "n AND 15 = n mod 16"
    using take_bit_eq_mask [of 4 n] by (simp add: take_bit_eq_mod mask_eq_exp_minus_1)
  show "12 \<le> 12 + drop_bit 4 n" by simp
  show "12 + drop_bit 4 n \<le> (15::nat)" using assms by (simp add: d)
  show "n AND 15 \<le> (15::nat)" by (simp add: a)
  show "16 * drop_bit 4 n + (n AND 15) = (n::nat)" by (simp add: a d)
qed

lemma ZeroRuns_result:
  "ZeroRuns zR NextNz out = (zR', NextNz', out') \<Longrightarrow>
   \<exists>ws lens. DstBuffer out' = DstBuffer out @ ws \<and> DecodeZeroRuns ws = Some lens \<and>
      list_all ZeroRunLength_ok lens \<and> sum_list lens + zR' = zR \<and> zR' < 4 \<and>
      NextNz' = NextNz + sum_list lens \<and> Size out' = Size out + 4 * length ws \<and>
      length ws \<le> sum_list lens \<and> nNzCoded out' = nNzCoded out"
proof (induction zR NextNz out rule: ZeroRuns.induct)
  case (1 zR NextNz out)
  consider (small) "zR < 4" | (short) "4 \<le> zR" "zR < 26" | (long) "26 \<le> zR" by linarith
  then show ?case
  proof cases
    case small
    with "1.prems" have "zR' = zR" "NextNz' = NextNz" "out' = out"
      by (subst (asm) ZeroRuns.simps, simp)+
    with small show ?thesis by (intro exI [of _ "[]"]) simp
  next
    case short
    define x where "x = (zR - 2) div 2"
    define o1 where "o1 = Block_Encode_WriteNybble (int x) (Block_Encode_WriteNybble 0x8 out)"
    have x: "1 \<le> x" "x \<le> 11" "x * 2 + 2 \<le> zR" using short by (auto simp: x_def)
    from "1.prems" short have r: "ZeroRuns (zR - (x * 2 + 2)) (NextNz + (x * 2 + 2)) o1 = (zR', NextNz', out')"
      by (subst (asm) ZeroRuns.simps) (simp add: Let_def x_def o1_def)
    from "1.IH"(1) [OF short(1) refl short(2) refl refl refl refl] r
    obtain ws lens where IH: "DstBuffer out' = DstBuffer o1 @ ws" "DecodeZeroRuns ws = Some lens"
      "list_all ZeroRunLength_ok lens" "sum_list lens + zR' = zR - (x * 2 + 2)" "zR' < 4"
      "NextNz' = NextNz + (x * 2 + 2) + sum_list lens" "Size out' = Size o1 + 4 * length ws"
      "length ws \<le> sum_list lens" "nNzCoded out' = nNzCoded o1"
      unfolding x_def o1_def by (auto simp: )
    have nib: "nat (int x mod 16) = x" using x by simp
    have len: "4 + 2 * (x - 1) = x * 2 + 2" using x by simp
    have buf: "DstBuffer out' = DstBuffer out @ ([8, x] @ ws)"
      using IH(1) nib by (simp add: o1_def)
    have dec: "DecodeZeroRuns ([8, x] @ ws) = Some ((x * 2 + 2) # lens)"
      using x IH(2) len by simp
    have ok: "list_all ZeroRunLength_ok ((x * 2 + 2) # lens)"
      using x IH(3) by (simp add: ZeroRunLength_ok_def)
    have sum: "sum_list ((x * 2 + 2) # lens) + zR' = zR"
      using IH(4) x(3) by simp
    have nz: "NextNz' = NextNz + sum_list ((x * 2 + 2) # lens)"
      using IH(6) by simp
    have sz: "Size out' = Size out + 4 * length ([8, x] @ ws)"
      using IH(7) by (simp add: o1_def)
    have ln: "length ([8, x] @ ws) \<le> sum_list ((x * 2 + 2) # lens)"
      using IH(8) by simp
    have nc: "nNzCoded out' = nNzCoded out"
      using IH(9) by (simp add: o1_def)
    from buf dec ok sum IH(5) nz sz ln nc show ?thesis by blast
  next
    case long
    define n where "n = (if (zR - 26) div 2 > 63 then 63 else (zR - 26) div 2)"
    define o1 where "o1 = Block_Encode_WriteNybble (int (n AND 0xF))
        (Block_Encode_WriteNybble (0xC + int (drop_bit 4 n)) (Block_Encode_WriteNybble 0x8 out))"
    have n: "n \<le> 63" "n * 2 + 26 \<le> zR" using long by (auto simp: n_def)
    from "1.prems" long have r: "ZeroRuns (zR - (n * 2 + 26)) (NextNz + (n * 2 + 26)) o1 = (zR', NextNz', out')"
      by (subst (asm) ZeroRuns.simps) (simp add: Let_def n_def o1_def)
    have c: "4 \<le> zR" "\<not> zR < 26" using long by simp_all
    from "1.IH"(2) [OF c(1) refl c(2) refl refl refl refl refl refl] r
    obtain ws lens where IH: "DstBuffer out' = DstBuffer o1 @ ws" "DecodeZeroRuns ws = Some lens"
      "list_all ZeroRunLength_ok lens" "sum_list lens + zR' = zR - (n * 2 + 26)" "zR' < 4"
      "NextNz' = NextNz + (n * 2 + 26) + sum_list lens" "Size out' = Size o1 + 4 * length ws"
      "length ws \<le> sum_list lens" "nNzCoded out' = nNzCoded o1"
      unfolding n_def o1_def by (auto simp: )
    note nb = long_run_nibbles [OF n(1)]
    have nib: "nat ((12 + int (drop_bit 4 n)) mod 16) = 12 + drop_bit 4 n"
      "nat (int (n AND 15) mod 16) = n AND 15"
      using nb by (simp_all add: nat_add_distrib)
    have buf: "DstBuffer out' = DstBuffer out @ ([8, 12 + drop_bit 4 n, n AND 15] @ ws)"
      using IH(1) nib by (simp add: o1_def)
    have dec: "DecodeZeroRuns ([8, 12 + drop_bit 4 n, n AND 15] @ ws) = Some ((n * 2 + 26) # lens)"
      using nb IH(2) by simp
    have ok: "list_all ZeroRunLength_ok ((n * 2 + 26) # lens)"
      using n IH(3) by (simp add: ZeroRunLength_ok_def)
    have sum: "sum_list ((n * 2 + 26) # lens) + zR' = zR"
      using IH(4) n(2) by simp
    have nz: "NextNz' = NextNz + sum_list ((n * 2 + 26) # lens)"
      using IH(6) by simp
    have sz: "Size out' = Size out + 4 * length ([8, 12 + drop_bit 4 n, n AND 15] @ ws)"
      using IH(7) by (simp add: o1_def)
    have ln: "length ([8, 12 + drop_bit 4 n, n AND 15] @ ws) \<le> sum_list ((n * 2 + 26) # lens)"
      using IH(8) by simp
    have nc: "nNzCoded out' = nNzCoded out"
      using IH(9) by (simp add: o1_def)
    from buf dec ok sum IH(5) nz sz ln nc show ?thesis by blast
  qed
qed



lemma WriteQuantizers_Size:
  "Size (WriteQuantizers State chan qband out) = Size out + 4 * (nQuants State - qband)"
proof (induction State chan qband out rule: WriteQuantizers.induct)
  case (1 State chan qband out)
  show ?case
  proof (cases "qband < nQuants State")
    case True
    from "1.IH" [OF True refl] True show ?thesis
      by (subst WriteQuantizers.simps) (simp add: Let_def)
  next
    case False
    then show ?thesis by (subst WriteQuantizers.simps) simp
  qed
qed

lemma CodeCoefficients_unfold:
  "CodeCoefficients State chan tBand NextNz e b out =
     (let b1 = (if e \<le> NextNz then b + 1 else b);
          e1 = (if e \<le> NextNz then e + QuantsBw State (b + 1) else e);
          Qn = Clip7 (c_round (TransformBuffer State chan NextNz / real_of_int (Quants State chan b1)));
          o1 = (if Qn \<noteq> 0
                then (Block_Encode_WriteNybble Qn out)\<lparr>nNzCoded := nNzCoded (Block_Encode_WriteNybble Qn out) + 1\<rparr>
                else Block_Encode_WriteNybble Qn out)
      in if NextNz + 1 \<le> tBand then CodeCoefficients State chan tBand (NextNz + 1) e1 b1 o1
         else (NextNz + 1, e1, b1, o1))"
  by (subst CodeCoefficients.simps) (simp add: Let_def Clip7_def split: prod.splits)

lemma CodeCoefficients_result:
  "CodeCoefficients State chan tBand NextNz e b out = (NextNz', e', b', out') \<Longrightarrow> NextNz \<le> tBand \<Longrightarrow>
   NextNz' = tBand + 1 \<and> Size out' = Size out + 4 * (tBand + 1 - NextNz) \<and>
   (\<exists>cs. DstBuffer out' = DstBuffer out @ cs \<and> length cs = tBand + 1 - NextNz \<and>
      (\<forall>i < length cs. \<exists>qb. cs ! i =
          nat (Clip7 (c_round (TransformBuffer State chan (NextNz + i) / real_of_int (Quants State chan qb))) mod 16)))"
proof (induction k \<equiv> "tBand - NextNz" arbitrary: NextNz e b out)
  case (0 NextNz e b out)
  define b1 where "b1 = (if e \<le> NextNz then b + 1 else b)"
  define e1 where "e1 = (if e \<le> NextNz then e + QuantsBw State (b + 1) else e)"
  define Qn where "Qn = Clip7 (c_round (TransformBuffer State chan NextNz / real_of_int (Quants State chan b1)))"
  define o1 where "o1 = (if Qn \<noteq> 0 then (Block_Encode_WriteNybble Qn out)\<lparr>nNzCoded := nNzCoded (Block_Encode_WriteNybble Qn out) + 1\<rparr>
                          else Block_Encode_WriteNybble Qn out)"
  have o1: "DstBuffer o1 = DstBuffer out @ [nat (Qn mod 16)]" "Size o1 = Size out + 4"
    by (simp_all add: o1_def)
  from 0 have eq: "tBand = NextNz" by simp
  then have "CodeCoefficients State chan tBand NextNz e b out = (NextNz + 1, e1, b1, o1)"
    by (subst CodeCoefficients_unfold) (simp add: Let_def b1_def e1_def Qn_def o1_def)
  with "0.prems"(1) have r: "NextNz' = NextNz + 1" "out' = o1" by simp_all
  have "\<exists>qb. [nat (Qn mod 16)] ! i =
        nat (Clip7 (c_round (TransformBuffer State chan (NextNz + i) / real_of_int (Quants State chan qb))) mod 16)"
    if "i < length [nat (Qn mod 16)]" for i
    using that by (auto simp: Qn_def)
  with r eq o1 show ?case
    by (intro conjI exI [of _ "[nat (Qn mod 16)]"]) simp_all
next
  case (Suc k NextNz e b out)
  define b1 where "b1 = (if e \<le> NextNz then b + 1 else b)"
  define e1 where "e1 = (if e \<le> NextNz then e + QuantsBw State (b + 1) else e)"
  define Qn where "Qn = Clip7 (c_round (TransformBuffer State chan NextNz / real_of_int (Quants State chan b1)))"
  define o1 where "o1 = (if Qn \<noteq> 0 then (Block_Encode_WriteNybble Qn out)\<lparr>nNzCoded := nNzCoded (Block_Encode_WriteNybble Qn out) + 1\<rparr>
                          else Block_Encode_WriteNybble Qn out)"
  have o1: "DstBuffer o1 = DstBuffer out @ [nat (Qn mod 16)]" "Size o1 = Size out + 4"
    by (simp_all add: o1_def)
  from Suc(2) have lt: "NextNz + 1 \<le> tBand" and k: "k = tBand - (NextNz + 1)" by simp_all
  from lt have "CodeCoefficients State chan tBand NextNz e b out =
      CodeCoefficients State chan tBand (NextNz + 1) e1 b1 o1"
    by (subst CodeCoefficients_unfold) (simp add: Let_def b1_def e1_def Qn_def o1_def)
  with Suc.prems(1) have r: "CodeCoefficients State chan tBand (NextNz + 1) e1 b1 o1 = (NextNz', e', b', out')"
    by simp
  from Suc(1) [OF k r lt]
  obtain cs where IH: "NextNz' = tBand + 1" "Size out' = Size o1 + 4 * (tBand + 1 - (NextNz + 1))"
      "DstBuffer out' = DstBuffer o1 @ cs" "length cs = tBand + 1 - (NextNz + 1)"
      "\<forall>i < length cs. \<exists>qb. cs ! i =
          nat (Clip7 (c_round (TransformBuffer State chan (NextNz + 1 + i) / real_of_int (Quants State chan qb))) mod 16)"
    by blast
  have buf: "DstBuffer out' = DstBuffer out @ (nat (Qn mod 16) # cs)"
    using IH(3) o1(1) by simp
  have len: "length (nat (Qn mod 16) # cs) = tBand + 1 - NextNz"
    using IH(4) lt by simp
  have sz: "Size out' = Size out + 4 * (tBand + 1 - NextNz)"
    using IH(2) o1(2) lt by simp
  have each: "\<exists>qb. (nat (Qn mod 16) # cs) ! i =
        nat (Clip7 (c_round (TransformBuffer State chan (NextNz + i) / real_of_int (Quants State chan qb))) mod 16)"
    if "i < length (nat (Qn mod 16) # cs)" for i
  proof (cases i)
    case 0
    then show ?thesis by (auto simp: Qn_def)
  next
    case (Suc j)
    with that have "j < length cs" by simp
    with IH(5) Suc show ?thesis by simp
  qed
  from IH(1) sz buf len each show ?case by blast
qed

lemma CodeKeys_unfold:
  "CodeKeys State nNzBands chan LastNz key NextNz e b out =
     (let tBand = AnalysisKeys State key AND (BlockSize State - 1);
          tChan = drop_bit (IntLog2 (BlockSize State)) (AnalysisKeys State key)
      in if LastNz \<le> tBand \<or> tChan \<noteq> chan then Some (key, NextNz, out)
         else if tBand < NextNz then None
         else (let r1 = ZeroRuns (tBand - NextNz) NextNz out;
                   r2 = CodeCoefficients State chan tBand (fst (snd r1)) e b (snd (snd r1))
               in if key + 1 < nNzBands
                  then CodeKeys State nNzBands chan LastNz (key + 1) (fst r2) (fst (snd r2))
                         (fst (snd (snd r2))) (snd (snd (snd r2)))
                  else Some (key + 1, fst r2, snd (snd (snd r2)))))"
  by (subst CodeKeys.simps) (simp add: Let_def split: prod.splits)

lemma CodeKeys_step_cost:
  assumes "NextNz \<le> tBand"
  shows "fst (CodeCoefficients State chan tBand (fst (snd (ZeroRuns (tBand - NextNz) NextNz out))) e b
              (snd (snd (ZeroRuns (tBand - NextNz) NextNz out)))) = tBand + 1 \<and>
         Size (snd (snd (snd (CodeCoefficients State chan tBand (fst (snd (ZeroRuns (tBand - NextNz) NextNz out))) e b
              (snd (snd (ZeroRuns (tBand - NextNz) NextNz out))))))) \<le> Size out + 4 * (tBand + 1 - NextNz)"
proof -
  obtain zR1 N1 o1 where z: "ZeroRuns (tBand - NextNz) NextNz out = (zR1, N1, o1)"
    by (metis prod_cases3)
  from ZeroRuns_result [OF z] obtain ws :: "nat list" and lens :: "nat list" where zr:
    "sum_list lens + zR1 = tBand - NextNz" "N1 = NextNz + sum_list lens"
    "Size o1 = Size out + 4 * length ws" "length ws \<le> sum_list lens" by blast
  from zr(1,2) assms have N1: "N1 \<le> tBand" "NextNz \<le> N1" by simp_all
  obtain N2 e2 b2 o2 where c: "CodeCoefficients State chan tBand N1 e b o1 = (N2, e2, b2, o2)"
    by (metis prod_cases4)
  from CodeCoefficients_result [OF c N1(1)] have cr:
    "N2 = tBand + 1" "Size o2 = Size o1 + 4 * (tBand + 1 - N1)" by simp_all
  have "Size o2 \<le> Size out + 4 * (tBand + 1 - NextNz)"
    using cr(2) zr(2,3,4) N1 by simp
  with cr(1) show ?thesis by (simp add: z c)
qed

lemma CodeKeys_result:
  "CodeKeys State nNzBands chan LastNz key NextNz e b out = Some (key', NextNz', out') \<Longrightarrow>
   NextNz \<le> LastNz \<Longrightarrow>
   NextNz \<le> NextNz' \<and> NextNz' \<le> LastNz \<and> Size out' \<le> Size out + 4 * (NextNz' - NextNz)"
proof (induction k \<equiv> "nNzBands - key" arbitrary: key NextNz e b out rule: less_induct)
  case less
  define tBand where "tBand = AnalysisKeys State key AND (BlockSize State - 1)"
  define tChan where "tChan = drop_bit (IntLog2 (BlockSize State)) (AnalysisKeys State key)"
  show ?case
  proof (cases "LastNz \<le> tBand \<or> tChan \<noteq> chan")
    case True
    with less.prems(1) have "NextNz' = NextNz" "out' = out"
      by (subst (asm) CodeKeys_unfold, simp add: Let_def tBand_def tChan_def)+
    with less.prems(2) show ?thesis by simp
  next
    case False
    then have f: "tBand < LastNz" "tChan = chan" by simp_all
    show ?thesis
    proof (cases "tBand < NextNz")
      case True
      with False less.prems(1) show ?thesis
        by (subst (asm) CodeKeys_unfold) (simp add: Let_def tBand_def tChan_def)
    next
      case ge: False
      then have le: "NextNz \<le> tBand" by simp
      define r2 where "r2 = CodeCoefficients State chan tBand (fst (snd (ZeroRuns (tBand - NextNz) NextNz out))) e b
              (snd (snd (ZeroRuns (tBand - NextNz) NextNz out)))"
      from CodeKeys_step_cost [OF le, of State chan out e b]
      have step: "fst r2 = tBand + 1" "Size (snd (snd (snd r2))) \<le> Size out + 4 * (tBand + 1 - NextNz)"
        by (simp_all add: r2_def)
      show ?thesis
      proof (cases "key + 1 < nNzBands")
        case True
        with False ge less.prems(1)
        have r: "CodeKeys State nNzBands chan LastNz (key + 1) (fst r2) (fst (snd r2))
                         (fst (snd (snd r2))) (snd (snd (snd r2))) = Some (key', NextNz', out')"
          by (subst (asm) CodeKeys_unfold) (simp add: Let_def tBand_def tChan_def r2_def)
        have m: "nNzBands - (key + 1) < nNzBands - key" using True by simp
        have "fst r2 \<le> LastNz" using step(1) f(1) by simp
        from less.hyps [OF m r this] step le show ?thesis by arith
      next
        case stop: False
        with False ge less.prems(1)
        have "NextNz' = fst r2" "out' = snd (snd (snd r2))"
          by (subst (asm) CodeKeys_unfold, simp add: Let_def tBand_def tChan_def r2_def)+
        with step f(1) le show ?thesis by simp
      qed
    qed
  qed
qed

lemma CodeRuns_unfold:
  "CodeRuns U State nNzBands chan q l key out =
     (let s = SkipUnused U State chan q l
      in if nQuants State \<le> fst s then Some (key, out)
         else (let x = ExtendRun U State chan (fst s) (snd s + QuantsBw State (fst s))
               in case CodeKeys State nNzBands chan (snd x) key (snd s)
                         (snd s + QuantsBw State (fst s)) (fst s) out of
                    None \<Rightarrow> None
                  | Some r \<Rightarrow>
                      if snd x < fst (snd r) then None
                      else CodeRuns U State nNzBands chan (fst x) (snd x) (fst r)
                             (if snd x - fst (snd r) = 1 then Block_Encode_WriteNybble 0x0 (snd (snd r))
                              else if 2 \<le> snd x - fst (snd r)
                              then Block_Encode_WriteNybble 0x0 (Block_Encode_WriteNybble 0x8 (snd (snd r)))
                              else snd (snd r))))"
  by (subst CodeRuns.simps) (simp add: Let_def split: prod.splits option.splits)

lemma sum_bw_split:
  assumes "(a::nat) \<le> b" "b \<le> c"
  shows "(\<Sum>i = a..<c. f i) = (\<Sum>i = a..<b. f i) + (\<Sum>i = b..<c. (f i :: nat))"
  using sum.atLeastLessThan_concat [OF assms, of f] by simp

lemma CodeRuns_result:
  "CodeRuns U State nNzBands chan q l key out = Some (key', out') \<Longrightarrow>
   Size out' \<le> Size out + 4 * (\<Sum>i = q..<nQuants State. QuantsBw State i)"
proof (induction k \<equiv> "nQuants State - q" arbitrary: q l key out rule: less_induct)
  case less
  obtain q1 l1 where s: "SkipUnused U State chan q l = (q1, l1)" by force
  from SkipUnused_result [OF s] have q1: "q \<le> q1" by simp
  show ?case
  proof (cases "nQuants State \<le> q1")
    case True
    with less.prems s have "out' = out"
      by (subst (asm) CodeRuns_unfold) (simp add: Let_def)
    then show ?thesis by simp
  next
    case False
    then have lt: "q1 < nQuants State" by simp
    obtain q2 l2 where x: "ExtendRun U State chan q1 (l1 + QuantsBw State q1) = (q2, l2)" by force
    from ExtendRun_result [OF x] lt have q2: "q1 < q2" "q2 \<le> nQuants State"
      and l2: "l2 = l1 + QuantsBw State q1 + (\<Sum>i = Suc q1..<q2. QuantsBw State i)" by simp_all
    have run: "l2 = l1 + (\<Sum>i = q1..<q2. QuantsBw State i)"
      using l2 q2(1) by (simp add: sum.atLeast_Suc_lessThan)
    from less.prems s x False
    obtain k1 N1 o1 where ck: "CodeKeys State nNzBands chan l2 key l1 (l1 + QuantsBw State q1) q1 out = Some (k1, N1, o1)"
      by (subst (asm) CodeRuns_unfold) (auto simp: Let_def split: option.splits)
    have "l1 \<le> l2" using run by simp
    from CodeKeys_result [OF ck this] have N1: "l1 \<le> N1" "N1 \<le> l2" "Size o1 \<le> Size out + 4 * (N1 - l1)"
      by simp_all
    define o2 where "o2 = (if l2 - N1 = 1 then Block_Encode_WriteNybble 0x0 o1
                              else if 2 \<le> l2 - N1
                              then Block_Encode_WriteNybble 0x0 (Block_Encode_WriteNybble 0x8 o1)
                              else o1)"
    have o2: "Size o2 \<le> Size o1 + 4 * (l2 - N1)"
      by (simp add: o2_def)
    from less.prems s x False ck N1(2)
    have r: "CodeRuns U State nNzBands chan q2 l2 k1 o2 = Some (key', out')"
      by (subst (asm) CodeRuns_unfold) (auto simp: Let_def o2_def split: if_splits)
    have m: "nQuants State - q2 < nQuants State - q" using q1 q2 lt by simp
    from less.hyps [OF m r] have rest: "Size out' \<le> Size o2 + 4 * (\<Sum>i = q2..<nQuants State. QuantsBw State i)" .
    have "Size o2 \<le> Size out + 4 * (l2 - l1)"
      using o2 N1 by simp
    then have "Size out' \<le> Size out + 4 * ((\<Sum>i = q1..<q2. QuantsBw State i) + (\<Sum>i = q2..<nQuants State. QuantsBw State i))"
      using rest run by simp
    also have "(\<Sum>i = q1..<q2. QuantsBw State i) + (\<Sum>i = q2..<nQuants State. QuantsBw State i) =
        (\<Sum>i = q1..<nQuants State. QuantsBw State i)"
      using sum_bw_split [of q1 q2 "nQuants State" "QuantsBw State"] q2 by simp
    also have "(\<Sum>i = q1..<nQuants State. QuantsBw State i) \<le> (\<Sum>i = q..<nQuants State. QuantsBw State i)"
      using q1 by (intro sum_mono2) auto
    finally show ?thesis by simp
  qed
qed

lemma CodeChannels_unfold:
  "CodeChannels U State nNzBands chan key out =
     (if chan < nChan State
      then (case CodeRuns U State nNzBands chan 0 0 key (WriteQuantizers State chan 0 out) of
              None \<Rightarrow> None
            | Some r \<Rightarrow> CodeChannels U State nNzBands (chan + 1) (fst r) (snd r))
      else Some (key, out))"
  by (subst CodeChannels.simps) (simp add: Let_def split: prod.splits option.splits)

lemma CodeChannels_result:
  "CodeChannels U State nNzBands chan key out = Some (key', out') \<Longrightarrow>
   Size out' \<le> Size out + (nChan State - chan) *
       (4 * nQuants State + 4 * (\<Sum>i = 0..<nQuants State. QuantsBw State i))"
proof (induction k \<equiv> "nChan State - chan" arbitrary: chan key out)
  case 0
  then have "\<not> chan < nChan State" by simp
  with "0.prems" have "out' = out"
    by (subst (asm) CodeChannels_unfold) simp
  then show ?case by simp
next
  case (Suc k)
  then have lt: "chan < nChan State" and k: "k = nChan State - (chan + 1)" by simp_all
  from Suc.prems lt obtain k1 o1 where
    cr: "CodeRuns U State nNzBands chan 0 0 key (WriteQuantizers State chan 0 out) = Some (k1, o1)"
    and r: "CodeChannels U State nNzBands (chan + 1) k1 o1 = Some (key', out')"
    by (subst (asm) CodeChannels_unfold) (auto split: option.splits)
  let ?c = "4 * nQuants State + 4 * (\<Sum>i = 0..<nQuants State. QuantsBw State i)"
  from CodeRuns_result [OF cr] have "Size o1 \<le> Size out + ?c"
    by (simp add: WriteQuantizers_Size)
  moreover from Suc(1) [OF k r] have "Size out' \<le> Size o1 + (nChan State - (chan + 1)) * ?c" .
  moreover have "nChan State - chan = Suc (nChan State - (chan + 1))" using lt by simp
  ultimately show ?case by simp
qed



lemma IntLog2_64: "IntLog2 64 = 6" "IntLog2 (Suc 0) = 0"
  using IntLog2_pow2 [of 6] IntLog2_pow2 [of 0] by simp_all

lemma Example_key_bands: "(0::nat) AND 63 = 0" "(10::nat) AND 63 = 10" "(40::nat) AND 63 = 40"
  by simp_all

lemma Example_Block_Encode: "Block_Encode 0 Example_State 3 = Some (56, 4, [0, 0, 3, 8, 3, 2, 14, 8, 12, 1, 0, 7, 8, 0])"
  by (simp add: Block_Encode_def CodeChannels_unfold CodeRuns_unfold CodeKeys_unfold
      CodeCoefficients_unfold ZeroRuns.simps SkipUnused.simps ExtendRun.simps WriteQuantizers.simps
      IntLog2_64 Let_def Block_Encode_WriteNybble_def Example_State_def Clip7_def c_round_def
      drop_bit_eq_div)









subsection \<open>Claim C1\<close>

text \<open>
  C1: whenever \<open>Block_Encode\<close> returns (no key below the coding position), the bit count
  it returns is at most \<open>8 + C*(12 + 20*(N-1))\<close> for \<open>C\<close> channels and block size \<open>N\<close>,
  provided the state is laid out as the encoder lays it out: the quantizer band widths
  sum to at most \<open>N\<close> and there are at most \<open>N\<close> bands (no band is empty). The proof
  bounds the cost of every coded position, zero run and stop code by 4 bits per
  coefficient and adds the \<open>nQuants\<close> quantizer nibbles of each channel.
\<close>

theorem C1_block_bits_bound:
  assumes "Block_Encode QUANTIZER_UNUSED State nNzBands = Some (bits, nz, buf)"
    and "(\<Sum>i = 0..<nQuants State. QuantsBw State i) \<le> BlockSize State"
    and "nQuants State \<le> BlockSize State"
  shows "bits \<le> 8 + nChan State * (12 + 20 * (BlockSize State - 1))"
proof -
  from assms(1) obtain key out where
    c: "CodeChannels QUANTIZER_UNUSED State nNzBands 0 0 \<lparr>DstBuffer = [], Size = 0, nNzCoded = 0\<rparr> = Some (key, out)"
    and b: "bits = Size out"
    by (auto simp: Block_Encode_def)
  let ?c = "4 * nQuants State + 4 * (\<Sum>i = 0..<nQuants State. QuantsBw State i)"
  from CodeChannels_result [OF c] have "Size out \<le> nChan State * ?c" by simp
  moreover have "?c \<le> 12 + 20 * (BlockSize State - 1)"
    using assms(2,3) by (cases "BlockSize State") simp_all
  ultimately have "Size out \<le> nChan State * (12 + 20 * (BlockSize State - 1))"
    by (meson le_trans mult_le_mono2)
  with b show ?thesis by simp
qed

theorem C1_block_bits_bound_witness:
  "Block_Encode 0 Example_State 3 = Some (56, 4, [0, 0, 3, 8, 3, 2, 14, 8, 12, 1, 0, 7, 8, 0]) \<and>
   (\<Sum>i = 0..<nQuants Example_State. QuantsBw Example_State i) \<le> BlockSize Example_State \<and>
   nQuants Example_State \<le> BlockSize Example_State \<and>
   (56::nat) \<le> 8 + nChan Example_State * (12 + 20 * (BlockSize Example_State - 1))"
proof -
  have a: "(\<Sum>i = 0..<nQuants Example_State. QuantsBw Example_State i) \<le> BlockSize Example_State"
    by (simp add: Example_State_def)
  have b: "nQuants Example_State \<le> BlockSize Example_State"
    by (simp add: Example_State_def)
  from C1_block_bits_bound [OF Example_Block_Encode a b] Example_Block_Encode a b
  show ?thesis by simp
qed

subsection \<open>Claim C6\<close>




end
